theory Spec2Isabelle
  imports
    Main
    "HOL-Library.Char_ord"
    "HOL-Library.List_Lexorder"
    "HOL-Library.Multiset"
    "HOL-Library.Word"
begin

section \<open>JavaScript values\<close>

text \<open>
  The controller (\<^verbatim>\<open>src/discographyController.ts\<close>) works on payloads of type
  \<^verbatim>\<open>any\<close>: whatever the host's \<^verbatim>\<open>CosmosAsync.get\<close> resolves with, or whatever it
  rejects with. They are modelled as JSON trees, with \<^verbatim>\<open>undefined\<close> added.

  \<^item> \<open>JObj kvs\<close> lists the own properties of an object in the order in which
    \<^verbatim>\<open>Object.values\<close> enumerates them; a property read finds the first pair with that key.
    No value of a payload is a function, so an own property named \<^verbatim>\<open>toString\<close> makes the
    conversion of that object to a string throw.
  \<^item> Numbers are the integers from \<^verbatim>\<open>-2^53\<close> to \<^verbatim>\<open>2^53 - 1\<close> (identifiers, years, HTTP
    status codes): the values \<open>sint w\<close> of a 54-bit word. A double holds each of them
    exactly and its conversion to a string prints all its digits.
  \<^item> Strings are lists of code units below \<^verbatim>\<open>U+0100\<close>: a \<open>char\<close> is the Latin-1 character
    with that code.
\<close>

datatype jsval =
    JUndefined
  | JNull
  | JBool bool
  | JNum "54 word"
  | JStr string
  | JArr "jsval list"
  | JObj "(string \<times> jsval) list"

text \<open>ToBoolean: what \<^verbatim>\<open>!v\<close>, \<^verbatim>\<open>a || b\<close> and \<^verbatim>\<open>if (v)\<close> test.\<close>

fun truthy :: "jsval \<Rightarrow> bool" where
  "truthy JUndefined = False"
| "truthy JNull = False"
| "truthy (JBool b) = b"
| "truthy (JNum n) = (n \<noteq> 0)"
| "truthy (JStr s) = (s \<noteq> [])"
| "truthy (JArr xs) = True"
| "truthy (JObj kvs) = True"

text \<open>\<^verbatim>\<open>a || b\<close>\<close>

definition jsOr :: "jsval \<Rightarrow> jsval \<Rightarrow> jsval" where
  "jsOr a b = (if truthy a then a else b)"

text \<open>
  The property read \<^verbatim>\<open>v?.k\<close> for the property names the controller uses. On
  \<^verbatim>\<open>undefined\<close> and \<^verbatim>\<open>null\<close> the optional chain gives \<^verbatim>\<open>undefined\<close>; strings, numbers,
  booleans and arrays have none of these properties. The controller writes a plain
  \<^verbatim>\<open>v.k\<close> only where \<^verbatim>\<open>v\<close> has been tested to be truthy, except in
  \<^verbatim>\<open>hydrateAlbumDetails\<close>, which is modelled with its exception.
\<close>

fun getProp :: "jsval \<Rightarrow> string \<Rightarrow> jsval" where
  "getProp (JObj kvs) k = (case map_of kvs k of Some v \<Rightarrow> v | None \<Rightarrow> JUndefined)"
| "getProp v k = JUndefined"

text \<open>\<^verbatim>\<open>v?.[0]\<close>: the first element of an array, the first character of a string, the
  property \<^verbatim>\<open>"0"\<close> of an object.\<close>

fun index0 :: "jsval \<Rightarrow> jsval" where
  "index0 (JArr xs) = (case xs of [] \<Rightarrow> JUndefined | x # rest \<Rightarrow> x)"
| "index0 (JStr s) = (case s of [] \<Rightarrow> JUndefined | c # rest \<Rightarrow> JStr [c])"
| "index0 (JObj kvs) = getProp (JObj kvs) ''0''"
| "index0 v = JUndefined"

text \<open>\<^verbatim>\<open>typeof v === "object"\<close>\<close>

fun typeofObject :: "jsval \<Rightarrow> bool" where
  "typeofObject JNull = True"
| "typeofObject (JArr xs) = True"
| "typeofObject (JObj kvs) = True"
| "typeofObject v = False"

subsection \<open>Strings\<close>

definition digitChar :: "nat \<Rightarrow> char" where
  "digitChar n = ''0123456789'' ! (n mod 10)"

fun showNat :: "nat \<Rightarrow> string" where
  "showNat n = (if n < 10 then [digitChar n] else showNat (n div 10) @ [digitChar n])"

declare showNat.simps [simp del]

definition showInt :: "int \<Rightarrow> string" where
  "showInt i = (if i < 0 then CHR ''-'' # showNat (nat (- i)) else showNat (nat i))"

fun joinWith :: "string \<Rightarrow> string list \<Rightarrow> string" where
  "joinWith sep [] = []"
| "joinWith sep [x] = x"
| "joinWith sep (x # y # ys) = x @ sep @ joinWith sep (y # ys)"

datatype error = InvalidPhase | TypeError

text \<open>The strings of the elements of an array, up to the first conversion that throws.\<close>

fun allStrings :: "(error + string) list \<Rightarrow> error + string list" where
  "allStrings [] = Inr []"
| "allStrings (Inl e # rest) = Inl e"
| "allStrings (Inr s # rest) =
     (case allStrings rest of Inl e \<Rightarrow> Inl e | Inr ss \<Rightarrow> Inr (s # ss))"

text \<open>
  ToString, as \<^verbatim>\<open>v.toString()\<close>, a template literal and the argument of
  \<^verbatim>\<open>localeCompare\<close> compute it. An array joins the strings of its elements with commas,
  \<^verbatim>\<open>undefined\<close> and \<^verbatim>\<open>null\<close> giving the empty string. An object without an own
  \<^verbatim>\<open>toString\<close> property inherits the method that answers \<^verbatim>\<open>[object Object]\<close>. An object
  with an own \<^verbatim>\<open>toString\<close> property has a value there that cannot be called: the method
  call \<^verbatim>\<open>v.toString()\<close> throws a \<^verbatim>\<open>TypeError\<close>, and so does the conversion to a primitive
  value, which finds no callable \<^verbatim>\<open>toString\<close> and no \<^verbatim>\<open>valueOf\<close> that returns a primitive.
\<close>

fun jsToString :: "jsval \<Rightarrow> error + string" where
  "jsToString JUndefined = Inr ''undefined''"
| "jsToString JNull = Inr ''null''"
| "jsToString (JBool b) = Inr (if b then ''true'' else ''false'')"
| "jsToString (JNum w) = Inr (showInt (sint w))"
| "jsToString (JStr s) = Inr s"
| "jsToString (JArr xs) =
     (case allStrings
             (map (\<lambda>x. if x = JUndefined \<or> x = JNull then Inr [] else jsToString x) xs) of
        Inl e \<Rightarrow> Inl e
      | Inr ss \<Rightarrow> Inr (joinWith '','' ss))"
| "jsToString (JObj kvs) =
     (if ''toString'' \<in> set (map fst kvs) then Inl TypeError else Inr ''[object Object]'')"

text \<open>
  \<^verbatim>\<open>toLowerCase\<close> on the code units below \<^verbatim>\<open>U+0100\<close>: the letters A to Z, and the
  capital letters from \<^verbatim>\<open>U+00C0\<close> to \<^verbatim>\<open>U+00DE\<close> other than the multiplication sign
  \<^verbatim>\<open>U+00D7\<close>, move up by 32; every other character is its own lower case.
\<close>

definition lowerChar :: "char \<Rightarrow> char" where
  "lowerChar c =
     (let n = (of_char c :: nat)
      in if (65 \<le> n \<and> n \<le> 90) \<or> (192 \<le> n \<and> n \<le> 222 \<and> n \<noteq> 215)
         then char_of (n + 32) else c)"

definition toLowerCase :: "string \<Rightarrow> string" where
  "toLowerCase s = map lowerChar s"

text \<open>\<^verbatim>\<open>s.includes(sub)\<close>\<close>

fun strIncludes :: "string \<Rightarrow> string \<Rightarrow> bool" where
  "strIncludes [] sub = (sub = [])"
| "strIncludes (c # cs) sub = (take (length sub) (c # cs) = sub \<or> strIncludes cs sub)"

text \<open>\<^verbatim>\<open>s.split(sep)\<close> for a one-character separator, and \<^verbatim>\<open>pop()\<close>.\<close>

fun splitOn :: "char \<Rightarrow> string \<Rightarrow> string list" where
  "splitOn sep [] = [[]]"
| "splitOn sep (c # cs) =
     (if c = sep then [] # splitOn sep cs
      else (case splitOn sep cs of [] \<Rightarrow> [[c]] | w # ws \<Rightarrow> (c # w) # ws))"

definition jsPop :: "string list \<Rightarrow> jsval" where
  "jsPop xs = (if xs = [] then JUndefined else JStr (last xs))"

section \<open>Releases and the normalizer\<close>

text \<open>
  \<^verbatim>\<open>interface DiscographyRelease\<close>. The interface declares every field a string; the
  normalizer fills \<^verbatim>\<open>id\<close>, \<^verbatim>\<open>name\<close>, \<^verbatim>\<open>release_date\<close>, \<^verbatim>\<open>uri\<close> and \<^verbatim>\<open>imageUrl\<close> with
  whatever truthy value the payload holds, and \<^verbatim>\<open>hydrateAlbumDetails\<close> does the same
  with \<^verbatim>\<open>album_type\<close>, so the fields are \<open>jsval\<close>.
\<close>

record DiscographyRelease =
  id_field :: jsval
  name :: jsval
  release_date :: jsval
  album_type :: jsval
  uri :: jsval
  imageUrl :: jsval

text \<open>\<^verbatim>\<open>const uri = item.uri || item?.link?.uri || item?.album?.uri || ""\<close>\<close>

definition resolveUri :: "jsval \<Rightarrow> jsval" where
  "resolveUri item =
     jsOr (jsOr (jsOr (getProp item ''uri'') (getProp (getProp item ''link'') ''uri''))
                (getProp (getProp item ''album'') ''uri''))
          (JStr [])"

text \<open>\<^verbatim>\<open>typeof uri === "string" && uri.includes(":") ? uri.split(":").pop() : ""\<close>\<close>

definition idFromUri :: "jsval \<Rightarrow> jsval" where
  "idFromUri u =
     (case u of
        JStr s \<Rightarrow> if strIncludes s '':'' then jsPop (splitOn CHR '':'' s) else JStr []
      | _ \<Rightarrow> JStr [])"

text \<open>\<^verbatim>\<open>const id = item.id || idFromUri || ""\<close>\<close>

definition resolveId :: "jsval \<Rightarrow> jsval" where
  "resolveId item = jsOr (jsOr (getProp item ''id'') (idFromUri (resolveUri item))) (JStr [])"

text \<open>The two stages that compute \<^verbatim>\<open>name\<close> (lines 127 to 136).\<close>

definition directName :: "jsval \<Rightarrow> jsval" where
  "directName item =
     jsOr (jsOr (jsOr (jsOr (getProp item ''name'') (getProp item ''title''))
                      (getProp item ''displayName''))
                (getProp item ''release_name''))
          (JStr [])"

definition resolveName :: "jsval \<Rightarrow> jsval" where
  "resolveName item =
     (if \<not> truthy (directName item) \<and> typeofObject item then
        if truthy (getProp (getProp item ''album'') ''name'') then getProp (getProp item ''album'') ''name''
        else if truthy (getProp (getProp item ''metadata'') ''name'')
          then getProp (getProp item ''metadata'') ''name''
        else if truthy (getProp (getProp item ''content'') ''name'')
          then getProp (getProp item ''content'') ''name''
        else if truthy (getProp (getProp item ''header'') ''title'')
          then getProp (getProp item ''header'') ''title''
        else if truthy (getProp (getProp item ''header'') ''subtitle'')
          then getProp (getProp item ''header'') ''subtitle''
        else if truthy (getProp (getProp item ''headerData'') ''title'')
          then getProp (getProp item ''headerData'') ''title''
        else directName item
      else directName item)"

text \<open>
  \<^verbatim>\<open>albumTypeRaw\<close>, the lower-cased type tag (lines 140 to 142), which does not exist when
  \<^verbatim>\<open>toString()\<close> throws, and the two tests on the tag and the uri.
\<close>

definition albumTypeRaw :: "jsval \<Rightarrow> error + string" where
  "albumTypeRaw item =
     (case jsToString
             (jsOr (jsOr (jsOr (jsOr (getProp item ''album_type'') (getProp item ''albumType''))
                               (getProp item ''type''))
                         (getProp item ''release_type''))
                   (JStr [])) of
        Inl e \<Rightarrow> Inl e
      | Inr s \<Rightarrow> Inr (toLowerCase s))"

definition albumTypeTags :: "string list" where
  "albumTypeTags = [''album'', ''single'', ''compilation'', ''appears_on'', ''ep'']"

definition isAlbumType :: "string \<Rightarrow> bool" where
  "isAlbumType tag = (tag \<in> set albumTypeTags)"

definition isAlbumUri :: "jsval \<Rightarrow> bool" where
  "isAlbumUri item = (case resolveUri item of JStr s \<Rightarrow> strIncludes s ''album'' | _ \<Rightarrow> False)"

definition resolveReleaseDate :: "jsval \<Rightarrow> jsval" where
  "resolveReleaseDate item =
     jsOr (jsOr (jsOr (jsOr (getProp item ''release_date'') (getProp item ''releaseDate''))
                      (getProp item ''release_date_iso''))
                (getProp item ''date''))
          (JStr [])"

definition resolveImages :: "jsval \<Rightarrow> jsval" where
  "resolveImages item =
     jsOr (jsOr (jsOr (getProp item ''images'') (getProp (getProp item ''coverArt'') ''sources''))
                (getProp (getProp item ''image'') ''sources''))
          (JArr [])"

definition resolveImageUrl :: "jsval \<Rightarrow> jsval" where
  "resolveImageUrl item =
     jsOr (jsOr (jsOr (getProp (index0 (resolveImages item)) ''url'')
                      (getProp (index0 (resolveImages item)) ''uri''))
                (getProp (getProp item ''image'') ''url''))
          (JStr [])"

text \<open>
  The \<^verbatim>\<open>uri\<close> of the record, \<^verbatim>\<open>uri || (id ? `spotify:album:${id}` : "")\<close>: the template
  literal is evaluated only when the uri is falsy, and it converts the id to a string.
\<close>

definition releaseUri :: "jsval \<Rightarrow> error + jsval" where
  "releaseUri item =
     (if truthy (resolveUri item) then Inr (resolveUri item)
      else if truthy (resolveId item) then
        (case jsToString (resolveId item) of
           Inl e \<Rightarrow> Inl e
         | Inr s \<Rightarrow> Inr (JStr (''spotify:album:'' @ s)))
      else Inr (JStr []))"

text \<open>
  \<^verbatim>\<open>normalizeReleaseItem(item)\<close>: \<open>Inr None\<close> is the result \<^verbatim>\<open>null\<close>, \<open>Inl e\<close> the
  exception that leaves the function.
\<close>

definition normalizeReleaseItem :: "jsval \<Rightarrow> error + DiscographyRelease option" where
  "normalizeReleaseItem item =
     (if \<not> truthy item then Inr None
      else if \<not> truthy (resolveId item) \<or> \<not> truthy (resolveName item) then Inr None
      else
        case albumTypeRaw item of
          Inl e \<Rightarrow> Inl e
        | Inr tag \<Rightarrow>
            if \<not> isAlbumType tag \<and> \<not> isAlbumUri item then Inr None
            else
              case releaseUri item of
                Inl e \<Rightarrow> Inl e
              | Inr u \<Rightarrow>
                  Inr (Some \<lparr>
                    id_field = resolveId item,
                    name = resolveName item,
                    release_date = resolveReleaseDate item,
                    album_type = JStr tag,
                    uri = u,
                    imageUrl = resolveImageUrl item \<rparr>))"

section \<open>The release map and the deep collection\<close>

text \<open>
  \<^verbatim>\<open>Map<string, DiscographyRelease>\<close>, keyed by \<^verbatim>\<open>release.id\<close>: the entries in insertion
  order, which is the order \<^verbatim>\<open>releasesMap.values()\<close> yields. A \<^verbatim>\<open>Map\<close> compares keys with
  SameValueZero: primitive keys by value, arrays and objects by identity. In a JSON tree
  every array or object is a node of its own, met once by the traversal, so a key that
  is an array or an object is never the same as a key already in the map.
\<close>

type_synonym releasesMap = "(jsval \<times> DiscographyRelease) list"

fun isPrimitive :: "jsval \<Rightarrow> bool" where
  "isPrimitive (JArr xs) = False"
| "isPrimitive (JObj kvs) = False"
| "isPrimitive v = True"

definition mapHas :: "releasesMap \<Rightarrow> jsval \<Rightarrow> bool" where
  "mapHas m k = (isPrimitive k \<and> k \<in> set (map fst m))"

fun mapSet :: "releasesMap \<Rightarrow> jsval \<Rightarrow> DiscographyRelease \<Rightarrow> releasesMap" where
  "mapSet [] k r = [(k, r)]"
| "mapSet ((k', r') # m) k r =
     (if isPrimitive k \<and> k' = k then (k', r) # m else (k', r') # mapSet m k r)"

text \<open>
  A loop over items whose body may throw, on a map that the body mutates in place:
  \<^verbatim>\<open>items.forEach((item) => body(item))\<close>. The result is the map when the loop ends,
  together with the exception that ended it, if any. At an exception the map holds what
  the earlier items have added.
\<close>

fun forEachItem ::
  "(releasesMap \<Rightarrow> 'a \<Rightarrow> releasesMap \<times> error option) \<Rightarrow> releasesMap \<Rightarrow> 'a list
     \<Rightarrow> releasesMap \<times> error option" where
  "forEachItem body m [] = (m, None)"
| "forEachItem body m (x # xs) =
     (case body m x of
        (m', Some e) \<Rightarrow> (m', Some e)
      | (m', None) \<Rightarrow> forEachItem body m' xs)"

text \<open>
  The body both traversals run on an item:
  \<^verbatim>\<open>const release = normalizeReleaseItem(item);
  if (release && !releasesMap.has(release.id)) releasesMap.set(release.id, release);\<close>
\<close>

definition addItem :: "releasesMap \<Rightarrow> jsval \<Rightarrow> releasesMap \<times> error option" where
  "addItem m item =
     (case normalizeReleaseItem item of
        Inl e \<Rightarrow> (m, Some e)
      | Inr None \<Rightarrow> (m, None)
      | Inr (Some release) \<Rightarrow>
          (if \<not> mapHas m (id_field release) then mapSet m (id_field release) release else m,
           None))"

text \<open>\<^verbatim>\<open>Object.values(value)\<close> of an object.\<close>

definition objectValues :: "(string \<times> jsval) list \<Rightarrow> jsval list" where
  "objectValues kvs = map snd kvs"

text \<open>
  \<^verbatim>\<open>collectReleasesDeep(value, releasesMap, depth)\<close>, together with the loop
  \<^verbatim>\<open>xs.forEach((item) => collectReleasesDeep(item, releasesMap, depth))\<close> that it runs on
  the elements of an array and on the field values of an object. The map is mutated in
  place by the source and returned here, with the exception that ended the traversal, if
  any. The recursion is justified by the depth and, inside a loop, by the items left: a
  call that starts a loop has \<open>depth \<le> 10\<close> and starts it at \<open>depth + 1\<close>.
\<close>

function collectReleasesDeep ::
    "jsval \<Rightarrow> releasesMap \<Rightarrow> nat \<Rightarrow> releasesMap \<times> error option"
  and collectEach ::
    "jsval list \<Rightarrow> releasesMap \<Rightarrow> nat \<Rightarrow> releasesMap \<times> error option" where
  "collectReleasesDeep value m depth =
     (if \<not> truthy value \<or> depth > 10 then (m, None)
      else case value of
        JArr items \<Rightarrow> collectEach items m (depth + 1)
      | JObj kvs \<Rightarrow>
          (case addItem m value of
             (m1, Some e) \<Rightarrow> (m1, Some e)
           | (m1, None) \<Rightarrow> collectEach (objectValues kvs) m1 (depth + 1))
      | _ \<Rightarrow> (m, None))"
| "collectEach [] m depth = (m, None)"
| "collectEach (item # rest) m depth =
     (case collectReleasesDeep item m depth of
        (m1, Some e) \<Rightarrow> (m1, Some e)
      | (m1, None) \<Rightarrow> collectEach rest m1 depth)"
  by pat_completeness auto
termination
  by (relation "inv_image (less_than <*lex*> less_than)
        (\<lambda>c. case c of
           Inl (value, m, depth) \<Rightarrow> (2 * (11 - depth), 0)
         | Inr (items, m, depth) \<Rightarrow> (2 * (11 - depth) + 1, length items))") auto

declare collectReleasesDeep.simps [simp del]

section \<open>Sorting the merged releases\<close>

text \<open>
  Modelled from the spec: \<^verbatim>\<open>String.prototype.localeCompare\<close> is a builtin of the host,
  absent from the sources; the specification describes the comparison as lexicographic
  string comparison, not calendar-aware. The result is negative, zero or positive.
\<close>

definition localeCompare :: "string \<Rightarrow> string \<Rightarrow> int" where
  "localeCompare s t = (if s < t then - 1 else if s = t then 0 else 1)"

text \<open>
  The comparator \<^verbatim>\<open>(a, b) => b.release_date.localeCompare(a.release_date)\<close>. Only a
  string has the method: on any other receiver the call is a \<^verbatim>\<open>TypeError\<close>. The argument
  is converted with ToString, which may throw as well.
\<close>

definition compareReleases :: "DiscographyRelease \<Rightarrow> DiscographyRelease \<Rightarrow> error + int" where
  "compareReleases a b =
     (case release_date b of
        JStr s \<Rightarrow>
          (case jsToString (release_date a) of
             Inl e \<Rightarrow> Inl e
           | Inr t \<Rightarrow> Inr (localeCompare s t))
      | _ \<Rightarrow> Inl TypeError)"

text \<open>
  Modelled from the spec: \<^verbatim>\<open>Array.prototype.sort\<close> is a builtin of the host, absent from
  the sources; the specification asks for an ordering that is stable for equal dates. The
  builtin is a stable sort that ends with the exception of a comparator call that throws.
  It is modelled as the stable insertion sort that takes the elements from left to right
  and calls the comparator with the new element first and an element already placed
  second. A negative result puts the new element before the placed one. An array of
  fewer than two elements is returned without any comparator call.
\<close>

fun insertRelease ::
  "DiscographyRelease \<Rightarrow> DiscographyRelease list \<Rightarrow> error + DiscographyRelease list" where
  "insertRelease x [] = Inr [x]"
| "insertRelease x (y # ys) =
     (case compareReleases x y of
        Inl e \<Rightarrow> Inl e
      | Inr c \<Rightarrow>
          if c < 0 then Inr (x # y # ys)
          else (case insertRelease x ys of Inl e \<Rightarrow> Inl e | Inr zs \<Rightarrow> Inr (y # zs)))"

fun sortInto ::
  "DiscographyRelease list \<Rightarrow> DiscographyRelease list \<Rightarrow> error + DiscographyRelease list" where
  "sortInto placed [] = Inr placed"
| "sortInto placed (x # xs) =
     (case insertRelease x placed of Inl e \<Rightarrow> Inl e | Inr placed' \<Rightarrow> sortInto placed' xs)"

definition sortReleases :: "DiscographyRelease list \<Rightarrow> error + DiscographyRelease list" where
  "sortReleases xs = sortInto [] xs"

text \<open>
  The date of a release as the string the comparison reads; the empty string stands for a
  date that has no string.
\<close>

definition releaseDateString :: "DiscographyRelease \<Rightarrow> string" where
  "releaseDateString r = (case jsToString (release_date r) of Inl e \<Rightarrow> [] | Inr s \<Rightarrow> s)"

section \<open>Module state\<close>

datatype Phase = IDLE | ARTISTVIEW | COOLDOWN | HYDRATING | DONE | ABORTED

record moduleState =
  phase :: Phase
  activeArtistId :: "string option"
  lastArtistId :: "string option"
  discographyReleaseCache :: "string \<rightharpoonup> DiscographyRelease list"
  albumCache :: "string \<rightharpoonup> jsval"
  currentReleases :: "DiscographyRelease list"

definition initialState :: moduleState where
  "initialState = \<lparr>
     phase = IDLE, activeArtistId = None, lastArtistId = None,
     discographyReleaseCache = Map.empty, albumCache = Map.empty, currentReleases = [] \<rparr>"

definition assertPhase :: "Phase list \<Rightarrow> moduleState \<Rightarrow> error + unit" where
  "assertPhase allowed s = (if phase s \<in> set allowed then Inr () else Inl InvalidPhase)"

definition transitionPhase :: "Phase \<Rightarrow> moduleState \<Rightarrow> moduleState" where
  "transitionPhase newPhase s = s\<lparr>phase := newPhase\<rparr>"

definition abortCurrentWork :: "moduleState \<Rightarrow> moduleState" where
  "abortCurrentWork s = (transitionPhase ABORTED s)\<lparr>activeArtistId := None\<rparr>"

definition reset :: "moduleState \<Rightarrow> moduleState" where
  "reset s = s\<lparr>phase := IDLE, activeArtistId := None\<rparr>"

text \<open>
  \<^verbatim>\<open>isRateLimitError(err)\<close>. The message is converted with \<^verbatim>\<open>toString()\<close> before
  anything is tested, so an exception of that conversion leaves the function.
\<close>

definition isRateLimitError :: "jsval \<Rightarrow> error + bool" where
  "isRateLimitError err =
     (let status = jsOr (jsOr (getProp err ''status'') (getProp (getProp err ''response'') ''status''))
                        (getProp err ''statusCode'')
      in case jsToString (jsOr (getProp err ''message'') (JStr [])) of
           Inl e \<Rightarrow> Inl e
         | Inr message \<Rightarrow>
             Inr (status = JNum 429 \<or> strIncludes message ''429''
                  \<or> strIncludes (toLowerCase message) ''rate''))"

section \<open>Asynchronous functions as resumable steps\<close>

text \<open>
  An \<^verbatim>\<open>async\<close> function runs until it returns or reaches an \<^verbatim>\<open>await\<close> of the host: a
  \<^verbatim>\<open>CosmosAsync.get(url)\<close> or a \<^verbatim>\<open>delay(ms)\<close>. There it is suspended on a
  continuation that holds its local variables, and any other entry point of the module
  may run before it is resumed with the host's response. A step function runs one such
  stretch on the module state. These are the suspension points the specification lists;
  the \<^verbatim>\<open>await\<close> of a call of the module's own \<^verbatim>\<open>fetchArtistView\<close> or
  \<^verbatim>\<open>fetchArtistAlbumsPaged\<close> continues in the same stretch once that call has returned.
  The flag \<open>available\<close> says whether \<^verbatim>\<open>Spicetify?.CosmosAsync?.get\<close> is truthy when it is
  tested.

  The functions \<^verbatim>\<open>cooldown\<close> and \<^verbatim>\<open>hydrateAlbumsBatch\<close> are called from nowhere in the
  module and are not exported; they are left out.
\<close>

datatype suspension = AwaitGet string | AwaitDelay nat

datatype response = Resolved jsval | Rejected jsval

datatype ('r, 'k) outcome = Returned 'r | Suspended suspension 'k

subsection \<open>\<^verbatim>\<open>fetchArtistView\<close>\<close>

definition artistViewUrl :: "string \<Rightarrow> string" where
  "artistViewUrl artistId =
     ''https://spclient.wg.spotify.com/artistview/v1/artist/'' @ artistId
       @ ''?market=from_token&limit=200''"

text \<open>Up to the \<^verbatim>\<open>await\<close>: the value returned, or the request to wait for.\<close>

definition fetchArtistView ::
  "bool \<Rightarrow> string \<Rightarrow> moduleState \<Rightarrow> (error + (jsval, unit) outcome) \<times> moduleState" where
  "fetchArtistView available artistId s =
     (case assertPhase [ARTISTVIEW] s of
        Inl e \<Rightarrow> (Inl e, s)
      | Inr u \<Rightarrow>
          if phase s = ABORTED then (Inr (Returned JNull), s)
          else if \<not> available then (Inr (Returned JNull), s)
          else (Inr (Suspended (AwaitGet (artistViewUrl artistId)) ()), s))"

text \<open>
  From the \<^verbatim>\<open>await\<close> on: the \<^verbatim>\<open>try\<close> body after it, or the \<^verbatim>\<open>catch\<close>. An exception
  of \<^verbatim>\<open>isRateLimitError\<close> inside the \<^verbatim>\<open>catch\<close> leaves the function.
\<close>

definition fetchArtistViewResume ::
  "response \<Rightarrow> moduleState \<Rightarrow> (error + jsval) \<times> moduleState" where
  "fetchArtistViewResume resp s =
     (case resp of
        Resolved data \<Rightarrow> if phase s = ABORTED then (Inr JNull, s) else (Inr data, s)
      | Rejected err \<Rightarrow>
          (case isRateLimitError err of
             Inl e \<Rightarrow> (Inl e, s)
           | Inr rateLimited \<Rightarrow>
               (Inr JNull, if rateLimited then transitionPhase ABORTED s else s)))"

subsection \<open>\<^verbatim>\<open>fetchArtistAlbumsPaged\<close>\<close>

definition pageLimit :: nat where
  "pageLimit = 50"

definition artistAlbumsUrl :: "string \<Rightarrow> nat \<Rightarrow> nat \<Rightarrow> string" where
  "artistAlbumsUrl artistId limit offset =
     ''https://api.spotify.com/v1/artists/'' @ artistId
       @ ''/albums?include_groups=album,single,compilation,appears_on&limit='' @ showNat limit
       @ ''&offset='' @ showNat offset"

text \<open>The local variables of the loop: \<^verbatim>\<open>artistId, releasesMap, maxPages, page, offset\<close>.\<close>

record pagedLocals =
  pl_artistId :: string
  pl_releasesMap :: releasesMap
  pl_maxPages :: nat
  pl_page :: nat
  pl_offset :: nat

datatype pagedCont = AfterPageGet pagedLocals | AfterPageDelay pagedLocals

text \<open>The head of \<^verbatim>\<open>while (page < maxPages)\<close>, up to the \<^verbatim>\<open>await\<close> of the page.\<close>

definition pagedLoop ::
  "pagedLocals \<Rightarrow> moduleState \<Rightarrow> (releasesMap, pagedCont) outcome \<times> moduleState" where
  "pagedLoop l s =
     (if pl_page l < pl_maxPages l then
        if phase s = ABORTED then (Returned (pl_releasesMap l), s)
        else (Suspended (AwaitGet (artistAlbumsUrl (pl_artistId l) pageLimit (pl_offset l)))
                (AfterPageGet l), s)
      else (Returned (pl_releasesMap l), s))"

definition fetchArtistAlbumsPaged ::
  "bool \<Rightarrow> string \<Rightarrow> releasesMap \<Rightarrow> nat \<Rightarrow> moduleState
     \<Rightarrow> (releasesMap, pagedCont) outcome \<times> moduleState" where
  "fetchArtistAlbumsPaged available artistId m maxPages s =
     (if \<not> available then (Returned m, s)
      else pagedLoop \<lparr> pl_artistId = artistId, pl_releasesMap = m, pl_maxPages = maxPages,
                       pl_page = 0, pl_offset = 0 \<rparr> s)"

text \<open>\<^verbatim>\<open>Array.isArray(data?.items) ? data.items : []\<close>\<close>

definition pageItems :: "jsval \<Rightarrow> jsval list" where
  "pageItems data = (case getProp data ''items'' of JArr items \<Rightarrow> items | _ \<Rightarrow> [])"

text \<open>
  Resuming the loop; \<open>Inl e\<close> is an exception that leaves \<^verbatim>\<open>fetchArtistAlbumsPaged\<close>.

  After a page request that is rejected: the \<^verbatim>\<open>catch\<close>, which logs the error, calls
  \<^verbatim>\<open>isRateLimitError\<close> on it, logs one more warning when that holds, and leaves the loop.
  An exception of \<^verbatim>\<open>isRateLimitError\<close> there leaves the function.

  After a page request that is resolved: the rest of the \<^verbatim>\<open>try\<close> body. An exception of
  \<^verbatim>\<open>normalizeReleaseItem\<close> in \<^verbatim>\<open>items.forEach\<close> is caught by the same \<^verbatim>\<open>catch\<close>; the value
  caught is then the engine's \<^verbatim>\<open>TypeError\<close> object, whose message is a string, so the
  \<^verbatim>\<open>catch\<close> only logs and leaves the loop, with the map as the earlier items left it.

  After the delay between two pages: the head of the loop.
\<close>

definition pagedResume ::
  "pagedCont \<Rightarrow> response \<Rightarrow> moduleState
     \<Rightarrow> (error + (releasesMap, pagedCont) outcome) \<times> moduleState" where
  "pagedResume k resp s =
     (case k of
        AfterPageGet l \<Rightarrow>
          (case resp of
             Rejected err \<Rightarrow>
               (case isRateLimitError err of
                  Inl e \<Rightarrow> (Inl e, s)
                | Inr rateLimited \<Rightarrow> (Inr (Returned (pl_releasesMap l)), s))
           | Resolved data \<Rightarrow>
               if length (pageItems data) = 0 then (Inr (Returned (pl_releasesMap l)), s)
               else
                 case forEachItem addItem (pl_releasesMap l) (pageItems data) of
                   (m', Some e) \<Rightarrow> (Inr (Returned m'), s)
                 | (m', None) \<Rightarrow>
                     if \<not> truthy (getProp data ''next'') then (Inr (Returned m'), s)
                     else (Inr (Suspended (AwaitDelay 5000)
                             (AfterPageDelay (l\<lparr> pl_releasesMap := m', pl_page := pl_page l + 1,
                                                  pl_offset := pl_offset l + pageLimit \<rparr>))), s))
      | AfterPageDelay l \<Rightarrow> (case pagedLoop l s of (out, s') \<Rightarrow> (Inr out, s')))"

subsection \<open>\<^verbatim>\<open>fetchDiscographyForArtist\<close>\<close>

datatype pipelineCont = KArtistView string | KPaged string pagedCont

type_synonym pipelineOutcome =
  "(DiscographyRelease list, pipelineCont) outcome \<times> moduleState"

text \<open>\<^verbatim>\<open>finally { if (phase !== "ABORTED") reset(); }\<close>\<close>

definition finallyBlock :: "moduleState \<Rightarrow> moduleState" where
  "finallyBlock s = (if phase s \<noteq> ABORTED then reset s else s)"

text \<open>\<^verbatim>\<open>catch (error) { transitionPhase("ABORTED"); reset(); return currentReleases; }\<close>,
  followed by the \<^verbatim>\<open>finally\<close> block.\<close>

definition catchBlock :: "moduleState \<Rightarrow> pipelineOutcome" where
  "catchBlock s =
     (let s1 = reset (transitionPhase ABORTED s)
      in (Returned (currentReleases s1), finallyBlock s1))"

text \<open>Lines 371 to 399: from the return of the paged fetch to the end of the \<^verbatim>\<open>try\<close>.\<close>

definition afterPaging :: "string \<Rightarrow> releasesMap \<Rightarrow> moduleState \<Rightarrow> pipelineOutcome" where
  "afterPaging artistId m s =
     (if length m = 0 then (Returned [], finallyBlock (reset (transitionPhase DONE s)))
      else
        case sortReleases (map snd m) of
          Inl e \<Rightarrow> catchBlock s
        | Inr rs \<Rightarrow>
            let s1 = s\<lparr>currentReleases := rs\<rparr>;
                s2 = transitionPhase DONE s1;
                s3 = s2\<lparr>discographyReleaseCache :=
                          (discographyReleaseCache s2)(artistId \<mapsto> currentReleases s2)\<rparr>
            in (Returned (currentReleases s3), finallyBlock s3))"

text \<open>
  Line 369, \<^verbatim>\<open>await fetchArtistAlbumsPaged(...)\<close>, and what follows it: an exception of
  the paged fetch reaches the \<^verbatim>\<open>catch\<close> block of the run.
\<close>

definition continuePaged ::
  "string \<Rightarrow> (error + (releasesMap, pagedCont) outcome) \<times> moduleState \<Rightarrow> pipelineOutcome" where
  "continuePaged artistId r =
     (case r of
        (Inl e, s) \<Rightarrow> catchBlock s
      | (Inr (Returned m), s) \<Rightarrow> afterPaging artistId m s
      | (Inr (Suspended w k), s) \<Rightarrow> (Suspended w (KPaged artistId k), s))"

text \<open>
  Lines 358 to 369: from the return of \<^verbatim>\<open>fetchArtistView\<close> to the paged fetch. An
  exception of \<^verbatim>\<open>collectReleasesDeep\<close> reaches the \<^verbatim>\<open>catch\<close> block of the run.
\<close>

definition afterArtistView ::
  "bool \<Rightarrow> string \<Rightarrow> jsval \<Rightarrow> moduleState \<Rightarrow> pipelineOutcome" where
  "afterArtistView available artistId artistViewData s =
     (if \<not> truthy artistViewData \<or> phase s = ABORTED
      then (Returned [], finallyBlock (reset s))
      else
        case collectReleasesDeep artistViewData [] 0 of
          (m, Some e) \<Rightarrow> catchBlock s
        | (m, None) \<Rightarrow>
            continuePaged artistId
              (case fetchArtistAlbumsPaged available artistId m 2 s of
                 (out, s') \<Rightarrow> (Inr out, s')))"

text \<open>The entry of \<^verbatim>\<open>fetchDiscographyForArtist(artistId)\<close>, up to its first \<^verbatim>\<open>await\<close>.\<close>

definition fetchDiscographyForArtist :: "bool \<Rightarrow> string \<Rightarrow> moduleState \<Rightarrow> pipelineOutcome" where
  "fetchDiscographyForArtist available artistId s0 =
     (let s = (case activeArtistId s0 of
                 None \<Rightarrow> s0
               | Some active \<Rightarrow>
                   if active \<noteq> [] \<and> active \<noteq> artistId then abortCurrentWork s0 else s0)
      in case discographyReleaseCache s artistId of
           Some cached \<Rightarrow> (Returned cached, s)
         | None \<Rightarrow>
             if activeArtistId s = Some artistId \<and> phase s \<noteq> IDLE \<and> phase s \<noteq> DONE
             then (Returned (currentReleases s), s)
             else
               let s1 = reset (s\<lparr>activeArtistId := Some artistId\<rparr>);
                   s2 = transitionPhase ARTISTVIEW s1
               in case fetchArtistView available artistId s2 of
                    (Inl e, s3) \<Rightarrow> catchBlock s3
                  | (Inr (Returned artistViewData), s3) \<Rightarrow>
                      afterArtistView available artistId artistViewData s3
                  | (Inr (Suspended w u), s3) \<Rightarrow> (Suspended w (KArtistView artistId), s3))"

text \<open>Resuming a suspended call with the host's response.\<close>

definition resumeDiscography ::
  "bool \<Rightarrow> pipelineCont \<Rightarrow> response \<Rightarrow> moduleState \<Rightarrow> pipelineOutcome" where
  "resumeDiscography available k resp s =
     (case k of
        KArtistView artistId \<Rightarrow>
          (case fetchArtistViewResume resp s of
             (Inl e, s1) \<Rightarrow> catchBlock s1
           | (Inr artistViewData, s1) \<Rightarrow>
               afterArtistView available artistId artistViewData s1)
      | KPaged artistId pk \<Rightarrow> continuePaged artistId (pagedResume pk resp s))"

subsection \<open>\<^verbatim>\<open>hydrateAlbumDetails\<close>\<close>

datatype hydrateCont = HydrateAfterDelay string | HydrateAfterGet string

type_synonym hydrateOutcome =
  "(error + DiscographyRelease option, hydrateCont) outcome \<times> moduleState"

definition albumUrl :: "string \<Rightarrow> string" where
  "albumUrl albumId = ''https://api.spotify.com/v1/albums/'' @ albumId"

text \<open>The record built on a cache hit (lines 423 to 430).\<close>

definition cachedRelease :: "string \<Rightarrow> jsval \<Rightarrow> DiscographyRelease" where
  "cachedRelease albumId cached = \<lparr>
     id_field = JStr albumId,
     name = jsOr (getProp cached ''name'') (JStr albumId),
     release_date = jsOr (getProp cached ''release_date'') (JStr []),
     album_type = jsOr (getProp cached ''album_type'') (JStr []),
     uri = JStr (''spotify:album:'' @ albumId),
     imageUrl = jsOr (getProp (index0 (getProp cached ''images'')) ''url'') (JStr []) \<rparr>"

text \<open>The record built from a fetched album (lines 452 to 459).\<close>

definition fetchedRelease :: "string \<Rightarrow> jsval \<Rightarrow> DiscographyRelease" where
  "fetchedRelease albumId album = \<lparr>
     id_field = JStr albumId,
     name = jsOr (getProp album ''name'') (JStr albumId),
     release_date = jsOr (getProp album ''release_date'') (JStr []),
     album_type = jsOr (getProp album ''album_type'') (JStr []),
     uri = jsOr (getProp album ''uri'') (JStr (''spotify:album:'' @ albumId)),
     imageUrl = jsOr (getProp (index0 (getProp album ''images'')) ''url'') (JStr []) \<rparr>"

text \<open>
  The entry of \<^verbatim>\<open>hydrateAlbumDetails(albumId)\<close>. A cached \<^verbatim>\<open>undefined\<close> or \<^verbatim>\<open>null\<close> would
  make \<^verbatim>\<open>cached.name\<close> throw, which rejects the promise of the call.
\<close>

definition hydrateAlbumDetails :: "string \<Rightarrow> moduleState \<Rightarrow> hydrateOutcome" where
  "hydrateAlbumDetails albumId s =
     (case albumCache s albumId of
        Some cached \<Rightarrow>
          if cached = JUndefined \<or> cached = JNull then (Returned (Inl TypeError), s)
          else (Returned (Inr (Some (cachedRelease albumId cached))), s)
      | None \<Rightarrow> (Suspended (AwaitDelay 30000) (HydrateAfterDelay albumId), s))"

text \<open>
  Resuming \<^verbatim>\<open>hydrateAlbumDetails\<close>. After the album request is resolved with a truthy
  value, the album is stored and then logged with the template literal
  \<^verbatim>\<open>`Hydrated: ${album.name}`\<close>; when that conversion throws, the \<^verbatim>\<open>catch\<close> logs the
  engine's \<^verbatim>\<open>TypeError\<close> and the function returns \<^verbatim>\<open>null\<close>, the album staying in the
  cache. After the request is rejected, the \<^verbatim>\<open>catch\<close> calls \<^verbatim>\<open>isRateLimitError\<close> on the
  value; an exception of that call rejects the promise of the call.
\<close>

definition hydrateResume ::
  "bool \<Rightarrow> hydrateCont \<Rightarrow> response \<Rightarrow> moduleState \<Rightarrow> hydrateOutcome" where
  "hydrateResume available k resp s =
     (case k of
        HydrateAfterDelay albumId \<Rightarrow>
          if \<not> available then (Returned (Inr None), s)
          else (Suspended (AwaitGet (albumUrl albumId)) (HydrateAfterGet albumId), s)
      | HydrateAfterGet albumId \<Rightarrow>
          (case resp of
             Resolved album \<Rightarrow>
               if truthy album then
                 (case jsToString (getProp album ''name'') of
                    Inl e \<Rightarrow>
                      (Returned (Inr None), s\<lparr>albumCache := (albumCache s)(albumId \<mapsto> album)\<rparr>)
                  | Inr logged \<Rightarrow>
                      (Returned (Inr (Some (fetchedRelease albumId album))),
                       s\<lparr>albumCache := (albumCache s)(albumId \<mapsto> album)\<rparr>))
               else (Returned (Inr None), s)
           | Rejected err \<Rightarrow>
               (case isRateLimitError err of
                  Inl e \<Rightarrow> (Returned (Inl e), s)
                | Inr rateLimited \<Rightarrow> (Returned (Inr None), s))))"

subsection \<open>\<^verbatim>\<open>abortDiscographyFetch\<close> and \<^verbatim>\<open>getDiscographyStatus\<close>\<close>

definition abortDiscographyFetch :: "moduleState \<Rightarrow> moduleState" where
  "abortDiscographyFetch s =
     (if phase s \<noteq> IDLE \<and> phase s \<noteq> DONE then abortCurrentWork s else s)"

definition getDiscographyStatus :: "moduleState \<Rightarrow> Phase \<times> string option \<times> nat" where
  "getDiscographyStatus s = (phase s, activeArtistId s, length (currentReleases s))"

section \<open>Executions\<close>

subsection \<open>One call, not interleaved with any other\<close>

text \<open>
  The host answers a \<^verbatim>\<open>get(url)\<close> with \<open>host url\<close> and ends a delay; nothing else runs
  in between. The fuel counts the suspensions: without enough of it there is no result.
\<close>

definition answer :: "(string \<Rightarrow> response) \<Rightarrow> suspension \<Rightarrow> response" where
  "answer host w = (case w of AwaitGet url \<Rightarrow> host url | AwaitDelay ms \<Rightarrow> Resolved JUndefined)"

fun drive ::
  "bool \<Rightarrow> (string \<Rightarrow> response) \<Rightarrow> nat \<Rightarrow> pipelineOutcome
     \<Rightarrow> (DiscographyRelease list \<times> moduleState) option" where
  "drive available host n (Returned rs, s) = Some (rs, s)"
| "drive available host 0 (Suspended w k, s) = None"
| "drive available host (Suc n) (Suspended w k, s) =
     drive available host n (resumeDiscography available k (answer host w) s)"

definition runDiscography ::
  "bool \<Rightarrow> (string \<Rightarrow> response) \<Rightarrow> string \<Rightarrow> moduleState
     \<Rightarrow> (DiscographyRelease list \<times> moduleState) option" where
  "runDiscography available host artistId s =
     drive available host 5 (fetchDiscographyForArtist available artistId s)"

subsection \<open>Interleaved calls\<close>

text \<open>
  The states the module can be in: the exported functions are called in any order, and
  each suspended call is resumed at any later time with any response of the host.
\<close>

datatype pending = PendingPipeline pipelineCont | PendingHydrate hydrateCont

inductive reachable :: "moduleState \<Rightarrow> pending list \<Rightarrow> bool" where
  loaded: "reachable initialState []"
| call_returns:
    "reachable s ps \<Longrightarrow> fetchDiscographyForArtist available artistId s = (Returned rs, s')
       \<Longrightarrow> reachable s' ps"
| call_suspends:
    "reachable s ps \<Longrightarrow> fetchDiscographyForArtist available artistId s = (Suspended w k, s')
       \<Longrightarrow> reachable s' (PendingPipeline k # ps)"
| resume_returns:
    "reachable s ps \<Longrightarrow> PendingPipeline k \<in> set ps
       \<Longrightarrow> resumeDiscography available k resp s = (Returned rs, s')
       \<Longrightarrow> reachable s' (remove1 (PendingPipeline k) ps)"
| resume_suspends:
    "reachable s ps \<Longrightarrow> PendingPipeline k \<in> set ps
       \<Longrightarrow> resumeDiscography available k resp s = (Suspended w k', s')
       \<Longrightarrow> reachable s' (PendingPipeline k' # remove1 (PendingPipeline k) ps)"
| hydrate_returns:
    "reachable s ps \<Longrightarrow> hydrateAlbumDetails albumId s = (Returned r, s')
       \<Longrightarrow> reachable s' ps"
| hydrate_suspends:
    "reachable s ps \<Longrightarrow> hydrateAlbumDetails albumId s = (Suspended w h, s')
       \<Longrightarrow> reachable s' (PendingHydrate h # ps)"
| hydrate_resume_returns:
    "reachable s ps \<Longrightarrow> PendingHydrate h \<in> set ps
       \<Longrightarrow> hydrateResume available h resp s = (Returned r, s')
       \<Longrightarrow> reachable s' (remove1 (PendingHydrate h) ps)"
| hydrate_resume_suspends:
    "reachable s ps \<Longrightarrow> PendingHydrate h \<in> set ps
       \<Longrightarrow> hydrateResume available h resp s = (Suspended w h', s')
       \<Longrightarrow> reachable s' (PendingHydrate h' # remove1 (PendingHydrate h) ps)"
| aborted: "reachable s ps \<Longrightarrow> reachable (abortDiscographyFetch s) ps"

code_pred reachable .

section \<open>Notions the properties are stated with\<close>





text \<open>
  Descending order of the dates: \<open>a\<close> may stand before \<open>b\<close> when the date string of
  \<open>b\<close> is not greater than that of \<open>a\<close>.
\<close>

definition dateNotBefore :: "DiscographyRelease \<Rightarrow> DiscographyRelease \<Rightarrow> bool" where
  "dateNotBefore a b = (releaseDateString b \<le> releaseDateString a)"

text \<open>Every release carries its date as a string, as the interface declares.\<close>

definition stringDates :: "DiscographyRelease list \<Rightarrow> bool" where
  "stringDates xs = (\<forall>r \<in> set xs. \<exists>s. release_date r = JStr s)"

text \<open>No call of \<^verbatim>\<open>fetchDiscographyForArtist\<close> is suspended.\<close>

fun isPipeline :: "pending \<Rightarrow> bool" where
  "isPipeline (PendingPipeline k) = True"
| "isPipeline (PendingHydrate h) = False"

definition noPipelinePending :: "pending list \<Rightarrow> bool" where
  "noPipelinePending ps = (\<forall>p \<in> set ps. \<not> isPipeline p)"

text \<open>The state between two runs: no phase in progress, no active artist.\<close>

definition settled :: "moduleState \<Rightarrow> bool" where
  "settled s = (phase s = IDLE \<and> activeArtistId s = None)"

text \<open>What holds of the module state and the suspended calls at every moment.\<close>

definition moduleInvariant :: "moduleState \<Rightarrow> pending list \<Rightarrow> bool" where
  "moduleInvariant s ps =
     (activeArtistId s = None \<and> (noPipelinePending ps \<longrightarrow> phase s = IDLE)
      \<and> (\<forall>i c. albumCache s i = Some c \<longrightarrow> truthy c))"

text \<open>An upper bound of the suspensions a call still goes through.\<close>

fun pagedRank :: "pagedCont \<Rightarrow> nat" where
  "pagedRank (AfterPageGet l) =
     (if pl_page l < pl_maxPages l then 2 * (pl_maxPages l - pl_page l) else 2)"
| "pagedRank (AfterPageDelay l) =
     (if pl_page l < pl_maxPages l then 2 * (pl_maxPages l - pl_page l) + 1 else 1)"

fun pipelineRank :: "pipelineCont \<Rightarrow> nat" where
  "pipelineRank (KArtistView a) = 5"
| "pipelineRank (KPaged a k) = pagedRank k"

text \<open>The locals a suspended paged fetch holds.\<close>

fun contLocals :: "pagedCont \<Rightarrow> pagedLocals" where
  "contLocals (AfterPageGet l) = l"
| "contLocals (AfterPageDelay l) = l"

text \<open>The release map a paged fetch holds when it returns or waits.\<close>

fun outcomeMap :: "(releasesMap, pagedCont) outcome \<Rightarrow> releasesMap" where
  "outcomeMap (Returned m) = m"
| "outcomeMap (Suspended w k) = pl_releasesMap (contLocals k)"

section \<open>Concrete payloads and executions\<close>

definition releaseItem :: "string \<Rightarrow> string \<Rightarrow> jsval \<Rightarrow> jsval" where
  "releaseItem i n d =
     JObj [(''id'', JStr i), (''name'', JStr n), (''type'', JStr ''album''),
           (''release_date'', d)]"

text \<open>What \<^verbatim>\<open>normalizeReleaseItem\<close> makes of such an item.\<close>

definition releaseOf :: "string \<Rightarrow> string \<Rightarrow> jsval \<Rightarrow> DiscographyRelease" where
  "releaseOf i n d = \<lparr>
     id_field = JStr i, name = JStr n, release_date = d, album_type = JStr ''album'',
     uri = JStr (''spotify:album:'' @ i), imageUrl = JStr [] \<rparr>"

text \<open>An overview of artist A with one release, and pages of the album list.\<close>

definition overviewA :: jsval where
  "overviewA = JObj [(''releases'', JArr [releaseItem ''a1'' ''First'' (JStr ''2020-01-01'')])]"

definition emptyPage :: jsval where
  "emptyPage = JObj [(''items'', JArr []), (''next'', JStr ''https://next'')]"

definition pageWithNext :: jsval where
  "pageWithNext =
     JObj [(''items'', JArr [releaseItem ''a2'' ''Second'' (JStr ''2022-06-15'')]),
           (''next'', JStr ''https://next'')]"

text \<open>An overview of artist B whose two releases carry their dates as objects.\<close>

definition overviewB :: jsval where
  "overviewB =
     JObj [(''releases'',
            JArr [releaseItem ''b1'' ''One'' (JObj [(''year'', JNum 2020)]),
                  releaseItem ''b2'' ''Two'' (JObj [(''year'', JNum 2021)])])]"

definition hostExample :: "string \<Rightarrow> response" where
  "hostExample url =
     (if url = artistViewUrl ''A'' then Resolved overviewA
      else if url = artistViewUrl ''B'' then Resolved overviewB
      else Resolved emptyPage)"

definition rateLimitError :: jsval where
  "rateLimitError = JObj [(''status'', JNum 429), (''message'', JStr ''Too Many Requests'')]"

text \<open>The locals of the paged fetch of artist A when its first page is requested.\<close>

definition firstPageA :: pagedLocals where
  "firstPageA = \<lparr> pl_artistId = ''A'',
                  pl_releasesMap = [(JStr ''a1'', releaseOf ''a1'' ''First'' (JStr ''2020-01-01''))],
                  pl_maxPages = 2, pl_page = 0, pl_offset = 0 \<rparr>"

text \<open>The state while the first call for A waits for its overview.\<close>

definition waitingA :: moduleState where
  "waitingA = initialState\<lparr>phase := ARTISTVIEW\<rparr>"

text \<open>The state after a call for A has run to its end on \<open>hostExample\<close>.\<close>

definition doneA :: moduleState where
  "doneA = initialState\<lparr>
     discographyReleaseCache := [''A'' \<mapsto> [releaseOf ''a1'' ''First'' (JStr ''2020-01-01'')]],
     currentReleases := [releaseOf ''a1'' ''First'' (JStr ''2020-01-01'')]\<rparr>"

text \<open>Three releases with the dates of the specification's example, in merge order.\<close>

definition threeReleases :: releasesMap where
  "threeReleases =
     [(JStr ''r1'', releaseOf ''r1'' ''Old'' (JStr ''2020-01-01'')),
      (JStr ''r2'', releaseOf ''r2'' ''New'' (JStr ''2022-06-15'')),
      (JStr ''r3'', releaseOf ''r3'' ''Undated'' (JStr []))]"



text \<open>A detail record as the album endpoint returns it.\<close>

definition albumDetail :: jsval where
  "albumDetail =
     JObj [(''name'', JStr ''First''), (''release_date'', JStr ''2020-01-01''),
           (''album_type'', JStr ''album''),
           (''images'', JArr [JObj [(''url'', JStr ''https://img/1'')]])]"

text \<open>The locals of the paged fetch of A after a first page that announces a second.\<close>

definition secondPageA :: pagedLocals where
  "secondPageA = \<lparr> pl_artistId = ''A'',
                   pl_releasesMap =
                     [(JStr ''a1'', releaseOf ''a1'' ''First'' (JStr ''2020-01-01'')),
                      (JStr ''a2'', releaseOf ''a2'' ''Second'' (JStr ''2022-06-15''))],
                   pl_maxPages = 2, pl_page = 1, pl_offset = 50 \<rparr>"

text \<open>The state after the detail of album a1 has been fetched.\<close>

definition hydratedState :: moduleState where
  "hydratedState = initialState\<lparr>albumCache := [''a1'' \<mapsto> albumDetail]\<rparr>"

text \<open>A last page: one item and no \<^verbatim>\<open>next\<close>.\<close>

definition lastPage :: jsval where
  "lastPage = JObj [(''items'', JArr [releaseItem ''a2'' ''Second'' (JStr ''2022-06-15'')])]"

text \<open>Four releases in merge order, two of them without a date.\<close>

definition fourReleases :: releasesMap where
  "fourReleases =
     [(JStr ''r1'', releaseOf ''r1'' ''Old'' (JStr ''2020-01-01'')),
      (JStr ''r3'', releaseOf ''r3'' ''Undated'' (JStr [])),
      (JStr ''r2'', releaseOf ''r2'' ''New'' (JStr ''2022-06-15'')),
      (JStr ''r4'', releaseOf ''r4'' ''Also undated'' (JStr []))]"




text \<open>An error whose message is an object with a \<^verbatim>\<open>toString\<close> field of its own.\<close>

definition unreadableError :: jsval where
  "unreadableError = JObj [(''message'', JObj [(''toString'', JNull)])]"
section \<open>Properties\<close>

subsection \<open>The release map only grows\<close>

lemma mapSet_fresh: "\<not> mapHas m k \<Longrightarrow> mapSet m k r = m @ [(k, r)]"
  by (induction m) (auto simp: mapHas_def)

lemma addItem_cases:
  "(\<exists>e. normalizeReleaseItem item = Inl e \<and> addItem m item = (m, Some e))
   \<or> addItem m item = (m, None)
   \<or> (\<exists>r. normalizeReleaseItem item = Inr (Some r) \<and> \<not> mapHas m (id_field r)
          \<and> addItem m item = (m @ [(id_field r, r)], None))"
  by (auto simp: addItem_def mapSet_fresh split: option.splits sum.splits)

lemma addItem_prefix: "\<exists>ys. fst (addItem m item) = m @ ys"
  using addItem_cases[of item m] by auto



lemma addItem_throws:
  "snd (addItem m item) = None \<longleftrightarrow> (\<forall>e. normalizeReleaseItem item \<noteq> Inl e)"
  by (auto simp: addItem_def split: option.splits sum.splits)

lemma addItem_source:
  "set (fst (addItem m item))
     \<subseteq> set m \<union> {(id_field r, r) | r. normalizeReleaseItem item = Inr (Some r)}"
  using addItem_cases[of item m] by auto

lemma normalize_obj: "normalizeReleaseItem v = Inr (Some r) \<Longrightarrow> \<exists>kvs. v = JObj kvs"
  by (cases v) (auto simp: normalizeReleaseItem_def resolveId_def resolveUri_def jsOr_def idFromUri_def split: if_splits)













lemma forEachItem_prefix:
  assumes "\<And>acc x. x \<in> set xs \<Longrightarrow> \<exists>ys. fst (f acc x) = acc @ ys"
  shows "\<exists>ys. fst (forEachItem f acc xs) = acc @ ys"
  using assms
proof (induction xs arbitrary: acc)
  case Nil then show ?case by simp
next
  case (Cons x xs)
  obtain ys where 1: "fst (f acc x) = acc @ ys" using Cons.prems[of x acc] by auto
  obtain zs where 2: "fst (forEachItem f (fst (f acc x)) xs) = fst (f acc x) @ zs"
    using Cons.IH[of "fst (f acc x)"] Cons.prems by auto
  show ?case
  proof (cases "f acc x")
    case (Pair m' e)
    then show ?thesis using 1 2 by (cases e) auto
  qed
qed


lemma forEachItem_addItem_prefix: "\<exists>ys. fst (forEachItem addItem m items) = m @ ys"
  by (rule forEachItem_prefix) (rule addItem_prefix)












subsection \<open>Steps of the pipeline\<close>

lemma finallyBlock_reset: "finallyBlock (reset s) = reset s"
  by (simp add: finallyBlock_def reset_def)

lemma reset_fields:
  "albumCache (reset s) = albumCache s"
  "discographyReleaseCache (reset s) = discographyReleaseCache s"
  "currentReleases (reset s) = currentReleases s"
  by (simp_all add: reset_def)

lemma reset_transition: "reset (transitionPhase p s) = reset s"
  by (simp add: reset_def transitionPhase_def)

lemma catchBlock_eq: "catchBlock s = (Returned (currentReleases s), reset s)"
  by (simp add: catchBlock_def Let_def finallyBlock_def reset_def transitionPhase_def)

lemma afterPaging_empty: "afterPaging a [] s = (Returned [], reset s)"
  by (simp add: afterPaging_def finallyBlock_reset reset_transition)

lemma afterPaging_throws:
  "m \<noteq> [] \<Longrightarrow> sortReleases (map snd m) = Inl e
     \<Longrightarrow> afterPaging a m s = (Returned (currentReleases s), reset s)"
  by (simp add: afterPaging_def catchBlock_eq)

lemma afterPaging_sorted:
  "m \<noteq> [] \<Longrightarrow> sortReleases (map snd m) = Inr rs
     \<Longrightarrow> afterPaging a m s
         = (Returned rs,
            (reset s)\<lparr>discographyReleaseCache := (discographyReleaseCache s)(a \<mapsto> rs),
                      currentReleases := rs\<rparr>)"
  by (simp add: afterPaging_def Let_def finallyBlock_def reset_def transitionPhase_def)

lemma settled_reset: "settled (reset s)"
  by (simp add: settled_def reset_def)

lemma afterPaging_returns:
  "\<exists>rs s'. afterPaging a m s = (Returned rs, s') \<and> settled s' \<and> albumCache s' = albumCache s"
proof (cases "m = []")
  case True then show ?thesis by (simp add: afterPaging_empty settled_reset reset_fields)
next
  case False
  show ?thesis
  proof (cases "sortReleases (map snd m)")
    case (Inl e) then show ?thesis using False
      by (simp add: afterPaging_throws settled_reset reset_fields)
  next
    case (Inr rs) then show ?thesis using False
      by (simp add: afterPaging_sorted settled_def reset_def)
  qed
qed

lemma pagedLoop_state: "snd (pagedLoop l s) = s"
  by (simp add: pagedLoop_def)

lemma pagedResume_state: "snd (pagedResume k resp s) = s"
proof (cases k)
  case (AfterPageGet l)
  then show ?thesis
    by (auto simp: pagedResume_def split: response.splits sum.splits prod.splits option.splits)
next
  case (AfterPageDelay l)
  then show ?thesis using pagedLoop_state[of l s]
    by (auto simp: pagedResume_def split: prod.splits)
qed

lemma fetchArtistAlbumsPaged_state: "snd (fetchArtistAlbumsPaged av a m n s) = s"
  by (simp add: fetchArtistAlbumsPaged_def pagedLoop_state)

lemma continuePaged_cases:
  assumes "snd r = s"
  shows "(\<exists>rs s'. continuePaged a r = (Returned rs, s') \<and> settled s' \<and> albumCache s' = albumCache s)
         \<or> (\<exists>w k. continuePaged a r = (Suspended w (KPaged a k), s)
              \<and> fst r = Inr (Suspended w k))"
proof (cases r)
  case (Pair res s0)
  then have s0: "s0 = s" using assms by simp
  show ?thesis
  proof (cases res)
    case (Inl e)
    then show ?thesis using Pair s0
      by (simp add: continuePaged_def catchBlock_eq settled_reset reset_fields)
  next
    case (Inr out)
    show ?thesis
    proof (cases out)
      case (Returned m)
      then show ?thesis using Pair Inr s0 afterPaging_returns[of a m s0]
        by (simp add: continuePaged_def)
    next
      case (Suspended w k)
      then show ?thesis using Pair Inr s0 by (simp add: continuePaged_def)
    qed
  qed
qed

lemma afterArtistView_cases:
  "(\<exists>rs s'. afterArtistView av a data s = (Returned rs, s') \<and> settled s' \<and> albumCache s' = albumCache s)
   \<or> (\<exists>w k. afterArtistView av a data s = (Suspended w (KPaged a k), s)
        \<and> fetchArtistAlbumsPaged av a (fst (collectReleasesDeep data [] 0)) 2 s
              = (Suspended w k, s))"
proof (cases "\<not> truthy data \<or> phase s = ABORTED")
  case True
  then show ?thesis by (simp add: afterArtistView_def finallyBlock_reset settled_reset reset_fields)
next
  case False
  obtain m e where c: "collectReleasesDeep data [] 0 = (m, e)"
    by (cases "collectReleasesDeep data [] 0")
  show ?thesis
  proof (cases e)
    case (Some err)
    then show ?thesis using False c
      by (simp add: afterArtistView_def catchBlock_eq settled_reset reset_fields)
  next
    case None
    obtain out s' where f: "fetchArtistAlbumsPaged av a m 2 s = (out, s')"
      by (cases "fetchArtistAlbumsPaged av a m 2 s")
    then have s': "s' = s" using fetchArtistAlbumsPaged_state[of av a m 2 s] by simp
    have run: "afterArtistView av a data s = continuePaged a (Inr out, s)"
      using False c None f s' by (simp add: afterArtistView_def)
    from continuePaged_cases[of "(Inr out, s)" s a] show ?thesis
      using run c f s' by auto
  qed
qed


lemma fetchArtistViewResume_truthy:
  "fetchArtistViewResume resp s = (Inr artistViewData, s1) \<Longrightarrow> truthy artistViewData \<Longrightarrow> s1 = s"
  by (auto simp: fetchArtistViewResume_def split: response.splits if_splits sum.splits)

lemma fetchArtistViewResume_throws:
  "fetchArtistViewResume resp s = (Inl e, s1) \<Longrightarrow> s1 = s"
  by (auto simp: fetchArtistViewResume_def split: response.splits if_splits sum.splits)

lemma fetchArtistViewResume_albumCache:
  "fetchArtistViewResume resp s = (r, s1)
     \<Longrightarrow> albumCache s1 = albumCache s \<and> activeArtistId s1 = activeArtistId s"
  by (auto simp: fetchArtistViewResume_def transitionPhase_def
           split: response.splits if_splits sum.splits)

lemma afterArtistView_falsy:
  "\<not> truthy artistViewData \<or> phase s = ABORTED
     \<Longrightarrow> afterArtistView av a artistViewData s = (Returned [], reset s)"
  by (simp add: afterArtistView_def finallyBlock_reset)

lemma resumeDiscography_cases:
  "(\<exists>rs s'. resumeDiscography av k resp s = (Returned rs, s') \<and> settled s'
        \<and> albumCache s' = albumCache s)
   \<or> (\<exists>w k'. resumeDiscography av k resp s = (Suspended w k', s))"
proof (cases k)
  case (KArtistView a)
  obtain res s1 where r: "fetchArtistViewResume resp s = (res, s1)"
    by (cases "fetchArtistViewResume resp s")
  show ?thesis
  proof (cases res)
    case (Inl e)
    then show ?thesis using KArtistView r fetchArtistViewResume_throws[of resp s e s1]
      by (simp add: resumeDiscography_def catchBlock_eq settled_reset reset_fields)
  next
    case (Inr artistViewData)
    show ?thesis
    proof (cases "truthy artistViewData")
      case True
      then have "s1 = s" using r Inr fetchArtistViewResume_truthy by blast
      then show ?thesis using KArtistView r Inr afterArtistView_cases[of av a artistViewData s]
        by (auto simp: resumeDiscography_def)
    next
      case False
      then show ?thesis using KArtistView r Inr fetchArtistViewResume_albumCache[OF r]
        by (simp add: resumeDiscography_def afterArtistView_falsy settled_reset reset_fields)
    qed
  qed
next
  case (KPaged a pk)
  have "snd (pagedResume pk resp s) = s" by (rule pagedResume_state)
  from continuePaged_cases[OF this, of a] show ?thesis using KPaged
    by (auto simp: resumeDiscography_def)
qed

lemma fetchDiscographyForArtist_cases:
  assumes "activeArtistId s = None"
  shows "(\<exists>rs. fetchDiscographyForArtist av a s = (Returned rs, s)
            \<and> discographyReleaseCache s a = Some rs)
   \<or> (\<exists>rs s'. fetchDiscographyForArtist av a s = (Returned rs, s') \<and> settled s'
          \<and> albumCache s' = albumCache s)
   \<or> fetchDiscographyForArtist av a s
        = (Suspended (AwaitGet (artistViewUrl a)) (KArtistView a), (reset s)\<lparr>phase := ARTISTVIEW\<rparr>)"
proof (cases "discographyReleaseCache s a")
  case (Some cached)
  then show ?thesis using assms by (simp add: fetchDiscographyForArtist_def)
next
  case None
  let ?s2 = "(reset s)\<lparr>phase := ARTISTVIEW\<rparr>"
  have s2: "transitionPhase ARTISTVIEW (reset (s\<lparr>activeArtistId := Some a\<rparr>)) = ?s2"
    by (simp add: transitionPhase_def reset_def)
  show ?thesis
  proof (cases av)
    case True
    then have "fetchArtistView av a ?s2 = (Inr (Suspended (AwaitGet (artistViewUrl a)) ()), ?s2)"
      by (simp add: fetchArtistView_def assertPhase_def)
    then show ?thesis using None assms by (simp add: fetchDiscographyForArtist_def s2 Let_def)
  next
    case False
    then have "fetchArtistView av a ?s2 = (Inr (Returned JNull), ?s2)"
      by (simp add: fetchArtistView_def assertPhase_def)
    then have "fetchDiscographyForArtist av a s = (Returned [], reset ?s2)"
      using None assms by (simp add: fetchDiscographyForArtist_def s2 Let_def afterArtistView_falsy)
    then show ?thesis by (simp add: settled_reset reset_fields)
  qed
qed

lemma noPipelinePending_remove1_hydrate:
  "noPipelinePending (remove1 (PendingHydrate h) ps) \<Longrightarrow> noPipelinePending ps"
  by (induction ps) (auto simp: noPipelinePending_def split: if_splits)

lemma hydrateAlbumDetails_state: "snd (hydrateAlbumDetails i s) = s"
  by (simp add: hydrateAlbumDetails_def split: option.splits)

lemma hydrateResume_state:
  "hydrateResume av h resp s = (out, s')
     \<Longrightarrow> phase s' = phase s \<and> activeArtistId s' = activeArtistId s
         \<and> ((\<forall>i c. albumCache s i = Some c \<longrightarrow> truthy c)
              \<longrightarrow> (\<forall>i c. albumCache s' i = Some c \<longrightarrow> truthy c))"
  by (auto simp: hydrateResume_def split: hydrateCont.splits response.splits if_splits sum.splits)

lemma abortDiscographyFetch_state:
  "activeArtistId s = None
     \<Longrightarrow> activeArtistId (abortDiscographyFetch s) = None
         \<and> albumCache (abortDiscographyFetch s) = albumCache s
         \<and> (phase s = IDLE \<longrightarrow> phase (abortDiscographyFetch s) = IDLE)"
  by (simp add: abortDiscographyFetch_def abortCurrentWork_def transitionPhase_def)

lemma reachable_moduleInvariant: "reachable s ps \<Longrightarrow> moduleInvariant s ps"
proof (induction rule: reachable.induct)
  case loaded
  then show ?case by (simp add: moduleInvariant_def initialState_def noPipelinePending_def)
next
  case (call_returns s ps available artistId rs s')
  then show ?case using fetchDiscographyForArtist_cases[of s available artistId]
    by (auto simp: moduleInvariant_def settled_def)
next
  case (call_suspends s ps available artistId w k s')
  then show ?case using fetchDiscographyForArtist_cases[of s available artistId]
    by (auto simp: moduleInvariant_def settled_def noPipelinePending_def reset_def)
next
  case (resume_returns s ps k available resp rs s')
  then show ?case using resumeDiscography_cases[of available k resp s]
    by (auto simp: moduleInvariant_def settled_def)
next
  case (resume_suspends s ps k available resp w k' s')
  then show ?case using resumeDiscography_cases[of available k resp s]
    by (auto simp: moduleInvariant_def noPipelinePending_def)
next
  case (hydrate_returns s ps albumId r s')
  then show ?case using hydrateAlbumDetails_state[of albumId s] by auto
next
  case (hydrate_suspends s ps albumId w h s')
  then show ?case using hydrateAlbumDetails_state[of albumId s]
    by (auto simp: moduleInvariant_def noPipelinePending_def)
next
  case (hydrate_resume_returns s ps h available resp r s')
  then show ?case
    using hydrateResume_state[of available h resp s "Returned r" s']
      noPipelinePending_remove1_hydrate[of h ps]
    by (auto simp: moduleInvariant_def)
next
  case (hydrate_resume_suspends s ps h available resp w h' s')
  then show ?case
    using hydrateResume_state[of available h resp s "Suspended w h'" s']
      noPipelinePending_remove1_hydrate[of h ps]
    by (auto simp: moduleInvariant_def noPipelinePending_def)
next
  case (aborted s ps)
  then show ?case using abortDiscographyFetch_state[of s] by (auto simp: moduleInvariant_def)
qed

lemma pagedResume_items:
  "\<exists>out. pagedResume (AfterPageGet l) (Resolved data) s = (Inr out, s)
      \<and> outcomeMap out = fst (forEachItem addItem (pl_releasesMap l) (pageItems data))"
proof (cases "pageItems data = []")
  case True
  then show ?thesis by (simp add: pagedResume_def)
next
  case False
  obtain m' e where f: "forEachItem addItem (pl_releasesMap l) (pageItems data) = (m', e)"
    by (cases "forEachItem addItem (pl_releasesMap l) (pageItems data)")
  show ?thesis using False f by (cases e) (simp_all add: pagedResume_def)
qed

subsection \<open>The sort\<close>

lemma compareReleases_result:
  "compareReleases x y = Inr c
     \<Longrightarrow> c = localeCompare (releaseDateString y) (releaseDateString x)"
  by (auto simp: compareReleases_def releaseDateString_def split: jsval.splits sum.splits)

lemma compareReleases_string:
  "release_date x = JStr s \<Longrightarrow> release_date y = JStr t \<Longrightarrow> \<exists>c. compareReleases x y = Inr c"
  by (simp add: compareReleases_def)

lemma localeCompare_negative: "localeCompare t s < 0 \<longleftrightarrow> t < s"
  by (simp add: localeCompare_def)

lemma insertRelease_total:
  "stringDates (x # ys) \<Longrightarrow> \<exists>zs. insertRelease x ys = Inr zs"
proof (induction ys)
  case Nil
  then show ?case by simp
next
  case (Cons y ys)
  from Cons.prems obtain s t where "release_date x = JStr s" "release_date y = JStr t"
    by (auto simp: stringDates_def)
  then obtain c where "compareReleases x y = Inr c"
    using compareReleases_string by blast
  moreover have "stringDates (x # ys)" using Cons.prems by (simp add: stringDates_def)
  then obtain zs where "insertRelease x ys = Inr zs"
    using Cons.IH by blast
  ultimately show ?case by simp
qed

lemma insertRelease_sorted:
  assumes "insertRelease x ys = Inr zs"
  shows "mset zs = add_mset x (mset ys)
           \<and> (sorted_wrt dateNotBefore ys \<longrightarrow>
                sorted_wrt dateNotBefore zs
                \<and> (\<forall>d. filter (\<lambda>r. releaseDateString r = d) zs
                         = filter (\<lambda>r. releaseDateString r = d) ys
                             @ filter (\<lambda>r. releaseDateString r = d) [x]))"
  using assms
proof (induction ys arbitrary: zs)
  case Nil
  then show ?case by auto
next
  case (Cons y ys)
  from Cons.prems obtain c where cmp: "compareReleases x y = Inr c"
    by (auto split: sum.splits)
  have c: "c = localeCompare (releaseDateString y) (releaseDateString x)"
    by (rule compareReleases_result[OF cmp])
  show ?case
  proof (cases "releaseDateString y < releaseDateString x")
    case True
    then have zs: "zs = x # y # ys"
      using Cons.prems cmp c by (simp add: localeCompare_negative)
    have sortedI: "sorted_wrt dateNotBefore (x # y # ys)"
      if srt: "sorted_wrt dateNotBefore (y # ys)"
    proof -
      have "\<forall>z \<in> set ys. releaseDateString z \<le> releaseDateString y"
        using srt by (auto simp: dateNotBefore_def)
      then have "\<forall>z \<in> set (y # ys). dateNotBefore x z"
        using True by (auto simp: dateNotBefore_def)
      then show ?thesis using srt by simp
    qed
    have stable: "filter (\<lambda>r. releaseDateString r = d) (x # y # ys)
         = filter (\<lambda>r. releaseDateString r = d) (y # ys)
             @ filter (\<lambda>r. releaseDateString r = d) [x]"
      if srt: "sorted_wrt dateNotBefore (y # ys)" for d
    proof (cases "releaseDateString x = d")
      case False
      then show ?thesis by simp
    next
      case eq: True
      have "\<forall>z \<in> set (y # ys). releaseDateString z < releaseDateString x"
        using srt True by (auto simp: dateNotBefore_def)
      then have "\<forall>z \<in> set (y # ys). releaseDateString z \<noteq> d"
        using eq by auto
      then have "filter (\<lambda>r. releaseDateString r = d) (y # ys) = []"
        by (simp add: filter_empty_conv)
      then show ?thesis using eq by simp
    qed
    show ?thesis using zs sortedI stable by auto
  next
    case False
    then have le: "releaseDateString x \<le> releaseDateString y" by simp
    from Cons.prems cmp c False obtain zs' where zs': "insertRelease x ys = Inr zs'" "zs = y # zs'"
      by (auto simp: localeCompare_negative split: sum.splits)
    from Cons.IH[OF zs'(1)] have m: "mset zs' = add_mset x (mset ys)"
      and rest: "sorted_wrt dateNotBefore ys \<Longrightarrow> sorted_wrt dateNotBefore zs'
                \<and> (\<forall>d. filter (\<lambda>r. releaseDateString r = d) zs'
                         = filter (\<lambda>r. releaseDateString r = d) ys
                             @ filter (\<lambda>r. releaseDateString r = d) [x])"
      by auto
    have setzs: "set zs' = insert x (set ys)"
      using m by (metis set_mset_add_mset_insert set_mset_mset)
    have sortedI: "sorted_wrt dateNotBefore (y # zs')" if srt: "sorted_wrt dateNotBefore (y # ys)"
      using rest srt setzs le by (auto simp: dateNotBefore_def)
    have stable: "filter (\<lambda>r. releaseDateString r = d) (y # zs')
         = filter (\<lambda>r. releaseDateString r = d) (y # ys)
             @ filter (\<lambda>r. releaseDateString r = d) [x]"
      if srt: "sorted_wrt dateNotBefore (y # ys)" for d
      using rest srt by auto
    show ?thesis using zs'(2) m sortedI stable by auto
  qed
qed

lemma sortInto_total:
  "stringDates (placed @ xs) \<Longrightarrow> \<exists>ys. sortInto placed xs = Inr ys"
proof (induction xs arbitrary: placed)
  case Nil
  then show ?case by simp
next
  case (Cons x xs)
  have "stringDates (x # placed)" using Cons.prems by (auto simp: stringDates_def)
  then obtain zs where zs: "insertRelease x placed = Inr zs"
    using insertRelease_total by blast
  then have "set zs = insert x (set placed)"
    using insertRelease_sorted[OF zs] by (metis set_mset_add_mset_insert set_mset_mset)
  then have "stringDates (zs @ xs)" using Cons.prems by (auto simp: stringDates_def)
  then show ?case using Cons.IH zs by simp
qed

lemma sortInto_sorted:
  assumes "sortInto placed xs = Inr ys" "sorted_wrt dateNotBefore placed"
  shows "mset ys = mset placed + mset xs \<and> sorted_wrt dateNotBefore ys
           \<and> (\<forall>d. filter (\<lambda>r. releaseDateString r = d) ys
                   = filter (\<lambda>r. releaseDateString r = d) placed
                       @ filter (\<lambda>r. releaseDateString r = d) xs)"
  using assms
proof (induction xs arbitrary: placed)
  case Nil
  then show ?case by simp
next
  case (Cons x xs)
  from Cons.prems(1) obtain zs where zs: "insertRelease x placed = Inr zs" "sortInto zs xs = Inr ys"
    by (auto split: sum.splits)
  from insertRelease_sorted[OF zs(1)] Cons.prems(2)
  have 1: "mset zs = add_mset x (mset placed)" "sorted_wrt dateNotBefore zs"
     "\<And>d. filter (\<lambda>r. releaseDateString r = d) zs
             = filter (\<lambda>r. releaseDateString r = d) placed
                 @ filter (\<lambda>r. releaseDateString r = d) [x]"
    by auto
  from Cons.IH[OF zs(2) 1(2)] 1(1,3) show ?case by simp
qed

lemma sorted_empty_last:
  assumes "sorted_wrt dateNotBefore ys" "i < j" "j < length ys" "releaseDateString (ys ! i) = []"
  shows "releaseDateString (ys ! j) = []"
proof -
  have "dateNotBefore (ys ! i) (ys ! j)"
    using assms(1,2,3) by (simp add: sorted_wrt_nth_less)
  then have "releaseDateString (ys ! j) \<le> []"
    using assms(4) by (simp add: dateNotBefore_def)
  then show ?thesis by simp
qed

lemma stable_by_value:
  assumes "\<forall>d. filter (\<lambda>r. releaseDateString r = d) ys = filter (\<lambda>r. releaseDateString r = d) xs"
  shows "filter (\<lambda>r. release_date r = v) ys = filter (\<lambda>r. release_date r = v) xs"
proof -
  have "filter (\<lambda>r. release_date r = v) zs
          = filter (\<lambda>r. release_date r = v)
              (filter (\<lambda>r. releaseDateString r = (case jsToString v of Inl e \<Rightarrow> [] | Inr s \<Rightarrow> s)) zs)"
    for zs
    by (induction zs) (auto simp: releaseDateString_def)
  then show ?thesis using assms by metis
qed

subsection \<open>A call ends after at most five suspensions\<close>

lemma pagedRank_pos: "0 < pagedRank k"
  by (cases k) auto

lemma pipelineRank_pos: "0 < pipelineRank k"
  by (cases k) (auto simp: pagedRank_pos)

lemma pagedResume_rank:
  "pagedResume k resp s = (Inr (Suspended w k'), s') \<Longrightarrow> pagedRank k' < pagedRank k"
  by (cases k)
     (auto simp: pagedResume_def pagedLoop_def Let_def
           split: response.splits if_splits sum.splits prod.splits option.splits)

lemma fetchArtistAlbumsPaged_rank:
  "fetchArtistAlbumsPaged av a m 2 s = (Suspended w k, s') \<Longrightarrow> pagedRank k = 4"
  by (auto simp: fetchArtistAlbumsPaged_def pagedLoop_def split: if_splits)

lemma continuePaged_suspended:
  assumes "continuePaged a r = (Suspended w pk, s')"
  shows "\<exists>k. pk = KPaged a k \<and> r = (Inr (Suspended w k), s')"
proof (cases r)
  case (Pair res s0)
  show ?thesis
  proof (cases res)
    case (Inl e)
    then show ?thesis using assms Pair by (simp add: continuePaged_def catchBlock_eq)
  next
    case (Inr out)
    show ?thesis
    proof (cases out)
      case (Returned m)
      obtain rs s1 where "afterPaging a m s0 = (Returned rs, s1)"
        using afterPaging_returns[of a m s0] by blast
      then show ?thesis using assms Pair Inr Returned by (simp add: continuePaged_def)
    next
      case (Suspended w0 k0)
      then show ?thesis using assms Pair Inr by (simp add: continuePaged_def)
    qed
  qed
qed

lemma resumeDiscography_rank:
  assumes "resumeDiscography av k resp s = (Suspended w k', s')"
  shows "pipelineRank k' < pipelineRank k"
proof (cases k)
  case (KArtistView a)
  obtain res s1 where r: "fetchArtistViewResume resp s = (res, s1)"
    by (cases "fetchArtistViewResume resp s")
  show ?thesis
  proof (cases res)
    case (Inl e)
    then show ?thesis using assms KArtistView r
      by (simp add: resumeDiscography_def catchBlock_eq)
  next
    case (Inr artistViewData)
    then have run: "afterArtistView av a artistViewData s1 = (Suspended w k', s')"
      using assms KArtistView r by (simp add: resumeDiscography_def)
    from afterArtistView_cases[of av a artistViewData s1] run
    obtain pk m where "k' = KPaged a pk" "fetchArtistAlbumsPaged av a m 2 s1 = (Suspended w pk, s1)"
      by auto
    then show ?thesis using KArtistView fetchArtistAlbumsPaged_rank by fastforce
  qed
next
  case (KPaged a pk)
  then have "continuePaged a (pagedResume pk resp s) = (Suspended w k', s')"
    using assms by (simp add: resumeDiscography_def)
  then obtain pk' where "k' = KPaged a pk'" "pagedResume pk resp s = (Inr (Suspended w pk'), s')"
    using continuePaged_suspended by blast
  then show ?thesis using KPaged pagedResume_rank by fastforce
qed

lemma drive_settles:
  "pipelineRank k \<le> n
     \<Longrightarrow> \<exists>rs s'. drive av host n (Suspended w k, s) = Some (rs, s') \<and> settled s'"
proof (induction n arbitrary: k w s)
  case 0
  then show ?case using pipelineRank_pos[of k] by simp
next
  case (Suc n)
  from resumeDiscography_cases[of av k "answer host w" s]
  show ?case
  proof
    assume "\<exists>rs s'. resumeDiscography av k (answer host w) s = (Returned rs, s') \<and> settled s'
        \<and> albumCache s' = albumCache s"
    then show ?thesis by auto
  next
    assume "\<exists>w' k'. resumeDiscography av k (answer host w) s = (Suspended w' k', s)"
    then obtain w' k' where r: "resumeDiscography av k (answer host w) s = (Suspended w' k', s)"
      by blast
    then have "pipelineRank k' \<le> n" using resumeDiscography_rank[OF r] Suc.prems by simp
    from Suc.IH[OF this, of w' s] r show ?thesis by simp
  qed
qed

subsection \<open>The steps of the concrete executions\<close>

lemma collect_overviewA: "collectReleasesDeep overviewA [] 0 = (pl_releasesMap firstPageA, None)"
  by code_simp

lemma step_callA:
  "fetchDiscographyForArtist True ''A'' initialState
     = (Suspended (AwaitGet (artistViewUrl ''A'')) (KArtistView ''A''), waitingA)"
  by (simp add: fetchDiscographyForArtist_def initialState_def waitingA_def fetchArtistView_def
        assertPhase_def reset_def transitionPhase_def Let_def)

lemma step_overviewA:
  "resumeDiscography True (KArtistView ''A'') (Resolved overviewA) waitingA
     = (Suspended (AwaitGet (artistAlbumsUrl ''A'' pageLimit 0))
          (KPaged ''A'' (AfterPageGet firstPageA)), waitingA)"
proof -
  have "phase waitingA = ARTISTVIEW" by (simp add: waitingA_def)
  moreover have "truthy overviewA" by (simp add: overviewA_def)
  moreover have "\<lparr> pl_artistId = ''A'', pl_releasesMap = pl_releasesMap firstPageA,
      pl_maxPages = 2, pl_page = 0, pl_offset = 0 \<rparr> = firstPageA"
    by (simp add: firstPageA_def)
  moreover have "pl_page firstPageA = 0" "pl_maxPages firstPageA = 2"
      "pl_artistId firstPageA = ''A''" "pl_offset firstPageA = 0"
    by (simp_all add: firstPageA_def)
  ultimately show ?thesis
    by (simp add: resumeDiscography_def fetchArtistViewResume_def afterArtistView_def
          collect_overviewA fetchArtistAlbumsPaged_def pagedLoop_def continuePaged_def)
qed

lemma sort_one: "sortReleases [r] = Inr [r]"
  by (simp add: sortReleases_def)

lemma step_lastPageA:
  "resumeDiscography True (KPaged ''A'' (AfterPageGet firstPageA)) (Resolved emptyPage) waitingA
     = (Returned [releaseOf ''a1'' ''First'' (JStr ''2020-01-01'')], doneA)"
proof -
  have "pageItems emptyPage = []" by (simp add: pageItems_def emptyPage_def)
  then have "pagedResume (AfterPageGet firstPageA) (Resolved emptyPage) waitingA
      = (Inr (Returned (pl_releasesMap firstPageA)), waitingA)"
    by (simp add: pagedResume_def)
  moreover have "afterPaging ''A'' (pl_releasesMap firstPageA) waitingA
      = (Returned [releaseOf ''a1'' ''First'' (JStr ''2020-01-01'')], doneA)"
    by (simp add: afterPaging_sorted[where rs = "[releaseOf ''a1'' ''First'' (JStr ''2020-01-01'')]"]
          firstPageA_def sort_one waitingA_def doneA_def initialState_def reset_def)
  ultimately show ?thesis by (simp add: resumeDiscography_def continuePaged_def)
qed

lemma reachable_waitingA: "reachable waitingA [PendingPipeline (KArtistView ''A'')]"
  using reachable.call_suspends[OF reachable.loaded step_callA] .

lemma reachable_doneA: "reachable doneA []"
proof -
  have "reachable waitingA [PendingPipeline (KPaged ''A'' (AfterPageGet firstPageA))]"
    using reachable.resume_suspends[OF reachable_waitingA _ step_overviewA] by simp
  from reachable.resume_returns[OF this _ step_lastPageA] show ?thesis by simp
qed

lemma reachable_hydratedState: "reachable hydratedState []"
proof -
  have 1: "hydrateAlbumDetails ''a1'' initialState
      = (Suspended (AwaitDelay 30000) (HydrateAfterDelay ''a1''), initialState)"
    by (simp add: hydrateAlbumDetails_def initialState_def)
  have 2: "hydrateResume True (HydrateAfterDelay ''a1'') (Resolved JUndefined) initialState
      = (Suspended (AwaitGet (albumUrl ''a1'')) (HydrateAfterGet ''a1''), initialState)"
    by (simp add: hydrateResume_def)
  have 3: "hydrateResume True (HydrateAfterGet ''a1'') (Resolved albumDetail) initialState
      = (Returned (Inr (Some (fetchedRelease ''a1'' albumDetail))), hydratedState)"
    by (simp add: hydrateResume_def albumDetail_def hydratedState_def initialState_def)
  have "reachable initialState [PendingHydrate (HydrateAfterDelay ''a1'')]"
    using reachable.hydrate_suspends[OF reachable.loaded 1] .
  from reachable.hydrate_resume_suspends[OF this _ 2]
  have "reachable initialState [PendingHydrate (HydrateAfterGet ''a1'')]" by simp
  from reachable.hydrate_resume_returns[OF this _ 3] show ?thesis by simp
qed

subsection \<open>The normalizer\<close>




subsection \<open>The deep collection\<close>




subsection \<open>Requests that overlap\<close>

text \<open>
  C1: a call for artist B that arrives while a call for artist A is suspended should
  abort the run of A, and the run of A should then store nothing for A. The code does
  neither. The entry of a new pipeline assigns \<^verbatim>\<open>activeArtistId = artistId\<close> and calls
  \<^verbatim>\<open>reset()\<close>, which clears it again, so the comparison with the active artist never
  succeeds. Here the call for A is suspended on its overview; the call for B leaves the
  phase at \<^verbatim>\<open>ARTISTVIEW\<close>, not \<^verbatim>\<open>ABORTED\<close>; the run of A is then resumed, runs to its end
  and stores its list for A.
\<close>

theorem superseded_run_not_aborted_and_cached:
  "fetchDiscographyForArtist True ''A'' initialState
     = (Suspended (AwaitGet (artistViewUrl ''A'')) (KArtistView ''A''), waitingA)
   \<and> fetchDiscographyForArtist True ''B'' waitingA
     = (Suspended (AwaitGet (artistViewUrl ''B'')) (KArtistView ''B''), waitingA)
   \<and> phase waitingA = ARTISTVIEW
   \<and> resumeDiscography True (KArtistView ''A'') (Resolved overviewA) waitingA
     = (Suspended (AwaitGet (artistAlbumsUrl ''A'' pageLimit 0))
          (KPaged ''A'' (AfterPageGet firstPageA)), waitingA)
   \<and> resumeDiscography True (KPaged ''A'' (AfterPageGet firstPageA)) (Resolved emptyPage) waitingA
     = (Returned [releaseOf ''a1'' ''First'' (JStr ''2020-01-01'')], doneA)
   \<and> discographyReleaseCache doneA ''A''
     = Some [releaseOf ''a1'' ''First'' (JStr ''2020-01-01'')]"
proof (intro conjI)
  show "fetchDiscographyForArtist True ''B'' waitingA
     = (Suspended (AwaitGet (artistViewUrl ''B'')) (KArtistView ''B''), waitingA)"
    by (simp add: fetchDiscographyForArtist_def initialState_def waitingA_def
          fetchArtistView_def assertPhase_def reset_def transitionPhase_def Let_def)
  show "phase waitingA = ARTISTVIEW"
    by (simp add: waitingA_def)
  show "discographyReleaseCache doneA ''A''
     = Some [releaseOf ''a1'' ''First'' (JStr ''2020-01-01'')]"
    by (simp add: doneA_def)
qed (rule step_callA step_overviewA step_lastPageA)+

text \<open>
  C2: a second call for artist A that arrives while the first is suspended should return
  \<^verbatim>\<open>currentReleases\<close> without an overview fetch. The test
  \<^verbatim>\<open>activeArtistId === artistId\<close> that guards this never succeeds, for the reason given
  for C1. Here the first call is suspended on its overview request, and the second call
  issues the same overview request again.
\<close>

theorem second_call_fetches_overview_again:
  "fetchDiscographyForArtist True ''A'' initialState
     = (Suspended (AwaitGet (artistViewUrl ''A'')) (KArtistView ''A''), waitingA)
   \<and> fetchDiscographyForArtist True ''A'' waitingA
     = (Suspended (AwaitGet (artistViewUrl ''A'')) (KArtistView ''A''), waitingA)"
proof
  show "fetchDiscographyForArtist True ''A'' initialState
     = (Suspended (AwaitGet (artistViewUrl ''A'')) (KArtistView ''A''), waitingA)"
    by (rule step_callA)
  show "fetchDiscographyForArtist True ''A'' waitingA
     = (Suspended (AwaitGet (artistViewUrl ''A'')) (KArtistView ''A''), waitingA)"
    by (simp add: fetchDiscographyForArtist_def initialState_def waitingA_def
          fetchArtistView_def assertPhase_def reset_def transitionPhase_def Let_def)
qed

subsection \<open>Runs that fail\<close>

text \<open>
  C3: a run of \<^verbatim>\<open>fetchDiscographyForArtist\<close> that ends empty, failed or aborted is to
  return an empty list and to store nothing in the per-artist cache. The code does so
  when the overview is missing, when the phase is \<^verbatim>\<open>ABORTED\<close> as the overview arrives,
  and when no release is found, and misses it on two paths.

  \<^item> An exception. After a run for A has left its list in \<^verbatim>\<open>currentReleases\<close>, a run
    for B whose two releases carry their dates as objects throws in the comparator of
    the sort. The \<^verbatim>\<open>catch\<close> block returns \<^verbatim>\<open>currentReleases\<close>, which is assigned only
    after a sort that succeeds and so still is the list of A. The same call, from the
    same state, returns the empty list when the overview is missing.

  \<^item> An abort. A run that is aborted during the delay between two pages leaves the
    paged fetch at the next head of the loop, and then sorts, stores and returns what it
    has collected. The same abort, seen when the overview arrives, ends the run with the
    empty list and nothing stored.
\<close>

theorem failed_run_returns_previous_list:
  "sortReleases (map snd (fst (collectReleasesDeep overviewB [] 0))) = Inl TypeError
   \<and> map_option fst (runDiscography True hostExample ''B'' doneA)
       = Some [releaseOf ''a1'' ''First'' (JStr ''2020-01-01'')]
   \<and> map_option fst (runDiscography True (\<lambda>url. Resolved JNull) ''B'' doneA) = Some []
   \<and> phase (abortDiscographyFetch waitingA) = ABORTED
   \<and> fst (resumeDiscography True (KPaged ''A'' (AfterPageDelay secondPageA))
            (Resolved JUndefined) (abortDiscographyFetch waitingA))
       = Returned [releaseOf ''a2'' ''Second'' (JStr ''2022-06-15''),
                   releaseOf ''a1'' ''First'' (JStr ''2020-01-01'')]
   \<and> discographyReleaseCache
         (snd (resumeDiscography True (KPaged ''A'' (AfterPageDelay secondPageA))
                 (Resolved JUndefined) (abortDiscographyFetch waitingA))) ''A''
       = Some [releaseOf ''a2'' ''Second'' (JStr ''2022-06-15''),
               releaseOf ''a1'' ''First'' (JStr ''2020-01-01'')]
   \<and> fst (resumeDiscography True (KArtistView ''A'') (Resolved overviewA)
            (abortDiscographyFetch waitingA))
       = Returned []
   \<and> discographyReleaseCache
         (snd (resumeDiscography True (KArtistView ''A'') (Resolved overviewA)
                 (abortDiscographyFetch waitingA))) ''A''
       = None"
proof (intro conjI)
  show "sortReleases (map snd (fst (collectReleasesDeep overviewB [] 0))) = Inl TypeError"
    by code_simp
  show "map_option fst (runDiscography True hostExample ''B'' doneA)
       = Some [releaseOf ''a1'' ''First'' (JStr ''2020-01-01'')]"
    by code_simp
  show "map_option fst (runDiscography True (\<lambda>url. Resolved JNull) ''B'' doneA) = Some []"
    by code_simp
  show "phase (abortDiscographyFetch waitingA) = ABORTED"
    by code_simp
  show "fst (resumeDiscography True (KPaged ''A'' (AfterPageDelay secondPageA))
            (Resolved JUndefined) (abortDiscographyFetch waitingA))
       = Returned [releaseOf ''a2'' ''Second'' (JStr ''2022-06-15''),
                   releaseOf ''a1'' ''First'' (JStr ''2020-01-01'')]"
    by code_simp
  show "discographyReleaseCache
         (snd (resumeDiscography True (KPaged ''A'' (AfterPageDelay secondPageA))
                 (Resolved JUndefined) (abortDiscographyFetch waitingA))) ''A''
       = Some [releaseOf ''a2'' ''Second'' (JStr ''2022-06-15''),
               releaseOf ''a1'' ''First'' (JStr ''2020-01-01'')]"
    by code_simp
  show "fst (resumeDiscography True (KArtistView ''A'') (Resolved overviewA)
            (abortDiscographyFetch waitingA))
       = Returned []"
    by code_simp
  show "discographyReleaseCache
         (snd (resumeDiscography True (KArtistView ''A'') (Resolved overviewA)
                 (abortDiscographyFetch waitingA))) ''A''
       = None"
    by code_simp
qed

subsection \<open>The paged fetch\<close>

text \<open>
  C4, as stated, fails in one part: a rate-limit error thrown by a page request does not
  set the phase to \<^verbatim>\<open>ABORTED\<close>. The \<^verbatim>\<open>catch\<close> block of the loop logs a warning for such
  an error and leaves the loop like for any other error. Here the error carries status
  429, the phase is \<^verbatim>\<open>ARTISTVIEW\<close> before and after, and the run goes on to store and
  return the release collected from the overview. Nor does the fetch stop quietly at
  every error: the \<^verbatim>\<open>catch\<close> block converts the message of the error to a string, and
  when that conversion throws, the exception leaves the paged fetch.
\<close>

theorem rate_limit_in_paging_keeps_phase:
  "isRateLimitError rateLimitError = Inr True
   \<and> phase waitingA = ARTISTVIEW
   \<and> phase (snd (pagedResume (AfterPageGet firstPageA) (Rejected rateLimitError) waitingA))
       = ARTISTVIEW
   \<and> fst (resumeDiscography True (KPaged ''A'' (AfterPageGet firstPageA))
            (Rejected rateLimitError) waitingA)
       = Returned [releaseOf ''a1'' ''First'' (JStr ''2020-01-01'')]
   \<and> fst (pagedResume (AfterPageGet firstPageA) (Rejected unreadableError) waitingA)
       = Inl TypeError"
proof (intro conjI)
  show "isRateLimitError rateLimitError = Inr True"
    by code_simp
  show "phase waitingA = ARTISTVIEW"
    by (simp add: waitingA_def)
  show "phase (snd (pagedResume (AfterPageGet firstPageA) (Rejected rateLimitError) waitingA))
       = ARTISTVIEW"
    by (simp add: pagedResume_state waitingA_def)
  show "fst (resumeDiscography True (KPaged ''A'' (AfterPageGet firstPageA))
            (Rejected rateLimitError) waitingA)
       = Returned [releaseOf ''a1'' ''First'' (JStr ''2020-01-01'')]"
    by code_simp
  show "fst (pagedResume (AfterPageGet firstPageA) (Rejected unreadableError) waitingA)
       = Inl TypeError"
    by code_simp
qed

text \<open>
  C4, amended: the paged fetch stops when a page has zero items, whatever \<^verbatim>\<open>next\<close> says,
  and when a page request throws, a rate-limit error included, provided the message of
  the error converts to a string; when that conversion throws, its exception leaves the
  paged fetch. It also stops when the phase is \<^verbatim>\<open>ABORTED\<close> at the head of the loop and
  when a page has no \<^verbatim>\<open>next\<close>. It never changes the module state, so no error sets a
  phase. Whenever it stops, and whenever it is suspended again, the map it holds starts
  with the map it held before: what has been collected is kept.
\<close>

theorem pagedFetch_stops_and_keeps:
  "(pageItems data = []
      \<longrightarrow> pagedResume (AfterPageGet l) (Resolved data) s = (Inr (Returned (pl_releasesMap l)), s))
   \<and> (isRateLimitError err = Inr rateLimited
        \<longrightarrow> pagedResume (AfterPageGet l) (Rejected err) s
              = (Inr (Returned (pl_releasesMap l)), s))
   \<and> (isRateLimitError err = Inl e
        \<longrightarrow> pagedResume (AfterPageGet l) (Rejected err) s = (Inl e, s))
   \<and> (phase s = ABORTED
        \<longrightarrow> pagedResume (AfterPageDelay l) resp s = (Inr (Returned (pl_releasesMap l)), s))
   \<and> (\<not> truthy (getProp data ''next'')
        \<longrightarrow> (\<exists>ys. pagedResume (AfterPageGet l) (Resolved data) s
                     = (Inr (Returned (pl_releasesMap l @ ys)), s)))
   \<and> snd (pagedResume k resp s) = s
   \<and> (\<forall>m'. fst (pagedResume k resp s) = Inr (Returned m')
        \<longrightarrow> (\<exists>ys. m' = pl_releasesMap (contLocals k) @ ys))
   \<and> (\<forall>w k'. fst (pagedResume k resp s) = Inr (Suspended w k')
        \<longrightarrow> (\<exists>ys. pl_releasesMap (contLocals k') = pl_releasesMap (contLocals k) @ ys))"
proof (intro conjI impI allI)
  assume "pageItems data = []"
  then show "pagedResume (AfterPageGet l) (Resolved data) s
               = (Inr (Returned (pl_releasesMap l)), s)"
    by (simp add: pagedResume_def)
next
  assume "isRateLimitError err = Inr rateLimited"
  then show "pagedResume (AfterPageGet l) (Rejected err) s
               = (Inr (Returned (pl_releasesMap l)), s)"
    by (simp add: pagedResume_def)
next
  assume "isRateLimitError err = Inl e"
  then show "pagedResume (AfterPageGet l) (Rejected err) s = (Inl e, s)"
    by (simp add: pagedResume_def)
next
  assume "phase s = ABORTED"
  then show "pagedResume (AfterPageDelay l) resp s = (Inr (Returned (pl_releasesMap l)), s)"
    by (simp add: pagedResume_def pagedLoop_def)
next
  assume last: "\<not> truthy (getProp data ''next'')"
  obtain m' e where f: "forEachItem addItem (pl_releasesMap l) (pageItems data) = (m', e)"
    by (cases "forEachItem addItem (pl_releasesMap l) (pageItems data)")
  obtain ys where ys: "m' = pl_releasesMap l @ ys"
    using forEachItem_addItem_prefix[of "pl_releasesMap l" "pageItems data"] f by auto
  show "\<exists>ys. pagedResume (AfterPageGet l) (Resolved data) s
                     = (Inr (Returned (pl_releasesMap l @ ys)), s)"
  proof (cases "pageItems data = []")
    case True
    then show ?thesis by (simp add: pagedResume_def)
  next
    case False
    then have "pagedResume (AfterPageGet l) (Resolved data) s = (Inr (Returned m'), s)"
      using last f by (cases e) (simp_all add: pagedResume_def)
    then show ?thesis using ys by simp
  qed
next
  show "snd (pagedResume k resp s) = s"
    by (rule pagedResume_state)
next
  fix m' assume r: "fst (pagedResume k resp s) = Inr (Returned m')"
  show "\<exists>ys. m' = pl_releasesMap (contLocals k) @ ys"
  proof (cases k)
    case (AfterPageGet l0)
    show ?thesis
    proof (cases resp)
      case (Resolved data0)
      obtain out where
        "pagedResume (AfterPageGet l0) (Resolved data0) s = (Inr out, s)"
        "outcomeMap out = fst (forEachItem addItem (pl_releasesMap l0) (pageItems data0))"
        using pagedResume_items by blast
      then show ?thesis
        using r AfterPageGet Resolved
          forEachItem_addItem_prefix[of "pl_releasesMap l0" "pageItems data0"]
        by auto
    next
      case (Rejected err0)
      then show ?thesis using r AfterPageGet
        by (auto simp: pagedResume_def split: sum.splits)
    qed
  next
    case (AfterPageDelay l0)
    then show ?thesis using r
      by (auto simp: pagedResume_def pagedLoop_def split: if_splits prod.splits)
  qed
next
  fix w k' assume r: "fst (pagedResume k resp s) = Inr (Suspended w k')"
  show "\<exists>ys. pl_releasesMap (contLocals k') = pl_releasesMap (contLocals k) @ ys"
  proof (cases k)
    case (AfterPageGet l0)
    show ?thesis
    proof (cases resp)
      case (Resolved data0)
      obtain out where
        "pagedResume (AfterPageGet l0) (Resolved data0) s = (Inr out, s)"
        "outcomeMap out = fst (forEachItem addItem (pl_releasesMap l0) (pageItems data0))"
        using pagedResume_items by blast
      then show ?thesis
        using r AfterPageGet Resolved
          forEachItem_addItem_prefix[of "pl_releasesMap l0" "pageItems data0"]
        by auto
    next
      case (Rejected err0)
      then show ?thesis using r AfterPageGet
        by (auto simp: pagedResume_def split: sum.splits)
    qed
  next
    case (AfterPageDelay l0)
    then show ?thesis using r
      by (auto simp: pagedResume_def pagedLoop_def split: if_splits prod.splits)
  qed
qed

theorem pagedFetch_stops_and_keeps_witness:
  "pageItems emptyPage = [] \<and> truthy (getProp emptyPage ''next'')
   \<and> pagedResume (AfterPageGet firstPageA) (Resolved emptyPage) waitingA
       = (Inr (Returned (pl_releasesMap firstPageA)), waitingA)
   \<and> isRateLimitError rateLimitError = Inr True
   \<and> pagedResume (AfterPageGet firstPageA) (Rejected rateLimitError) waitingA
       = (Inr (Returned (pl_releasesMap firstPageA)), waitingA)
   \<and> isRateLimitError unreadableError = Inl TypeError
   \<and> pagedResume (AfterPageGet firstPageA) (Rejected unreadableError) waitingA
       = (Inl TypeError, waitingA)
   \<and> phase (abortDiscographyFetch waitingA) = ABORTED
   \<and> pagedResume (AfterPageDelay secondPageA) (Resolved JUndefined) (abortDiscographyFetch waitingA)
       = (Inr (Returned (pl_releasesMap secondPageA)), abortDiscographyFetch waitingA)
   \<and> \<not> truthy (getProp lastPage ''next'')
   \<and> fst (pagedResume (AfterPageGet firstPageA) (Resolved lastPage) waitingA)
       = Inr (Returned (pl_releasesMap secondPageA))
   \<and> fst (pagedResume (AfterPageGet firstPageA) (Resolved pageWithNext) waitingA)
       = Inr (Suspended (AwaitDelay 5000) (AfterPageDelay secondPageA))
   \<and> (\<exists>ys. pl_releasesMap secondPageA = pl_releasesMap firstPageA @ ys)"
proof -
  have 0: "\<not> truthy (getProp lastPage ''next'')"
    by (simp add: lastPage_def)
  have 4: "fst (pagedResume (AfterPageGet firstPageA) (Resolved lastPage) waitingA)
       = Inr (Returned (pl_releasesMap secondPageA))"
    by code_simp
  have 1: "pageItems emptyPage = []" "truthy (getProp emptyPage ''next'')"
    by (simp_all add: pageItems_def emptyPage_def)
  have 2: "phase (abortDiscographyFetch waitingA) = ABORTED"
    by (simp add: abortDiscographyFetch_def abortCurrentWork_def transitionPhase_def waitingA_def)
  have 3: "fst (pagedResume (AfterPageGet firstPageA) (Resolved pageWithNext) waitingA)
       = Inr (Suspended (AwaitDelay 5000) (AfterPageDelay secondPageA))"
    by code_simp
  have 5: "isRateLimitError rateLimitError = Inr True"
    by code_simp
  have 6: "isRateLimitError unreadableError = Inl TypeError"
    by code_simp
  from 0 1 2 3 4 5 6
    pagedFetch_stops_and_keeps [where data = lastPage and l = firstPageA and s = waitingA
       and err = rateLimitError and rateLimited = True and e = TypeError
       and resp = "Resolved lastPage" and k = "AfterPageGet firstPageA"]
    pagedFetch_stops_and_keeps [where data = emptyPage and l = firstPageA and s = waitingA
       and err = unreadableError and rateLimited = True and e = TypeError
       and resp = "Resolved JUndefined" and k = "AfterPageGet firstPageA"]
    pagedFetch_stops_and_keeps [where data = emptyPage and l = secondPageA
       and s = "abortDiscographyFetch waitingA"
       and err = rateLimitError and rateLimited = True and e = TypeError
       and resp = "Resolved JUndefined" and k = "AfterPageGet firstPageA"]
    pagedFetch_stops_and_keeps [where data = pageWithNext and l = firstPageA and s = waitingA
       and err = rateLimitError and rateLimited = True and e = TypeError
       and resp = "Resolved pageWithNext" and k = "AfterPageGet firstPageA"]
  show ?thesis by simp
qed

subsection \<open>The per-artist cache\<close>

text \<open>
  C5: in every state the module can reach, a call of \<^verbatim>\<open>fetchDiscographyForArtist\<close> for an
  artist that has an entry in the per-artist cache returns exactly the cached list at
  once: the call is not suspended, so it issues no request, and it leaves the module
  state, the phase included, as it was. The test of the active artist, which stands
  before the cache lookup and could change the phase, never succeeds in a reachable
  state, because no reachable state has an active artist.
\<close>

theorem cached_artist_returned_at_once:
  assumes "reachable s ps" and "discographyReleaseCache s artistId = Some cached"
  shows "fetchDiscographyForArtist available artistId s = (Returned cached, s)"
  using reachable_moduleInvariant [OF assms(1)] assms(2)
  by (simp add: moduleInvariant_def fetchDiscographyForArtist_def)

theorem cached_artist_returned_at_once_witness:
  "reachable doneA []
   \<and> discographyReleaseCache doneA ''A'' = Some [releaseOf ''a1'' ''First'' (JStr ''2020-01-01'')]
   \<and> fetchDiscographyForArtist True ''A'' doneA
       = (Returned [releaseOf ''a1'' ''First'' (JStr ''2020-01-01'')], doneA)"
proof -
  have c: "discographyReleaseCache doneA ''A''
             = Some [releaseOf ''a1'' ''First'' (JStr ''2020-01-01'')]"
    by (simp add: doneA_def)
  from cached_artist_returned_at_once [OF reachable_doneA c, of True] reachable_doneA c
  show ?thesis by simp
qed

subsection \<open>The order of the result\<close>

text \<open>
  C6: a run that reaches the sort with a non-empty merged map succeeds whenever the
  releases carry their dates as strings, and whenever the sort succeeds the run returns
  the sorted list and stores that same list in the per-artist cache and in
  \<^verbatim>\<open>currentReleases\<close>. The list holds exactly the merged releases, in descending
  lexicographic order of their date strings, with no parsing of dates; so a release with
  an empty date string is followed only by releases with an empty date string. Releases
  with the same date keep the order in which the merge produced them.
\<close>

theorem successful_run_sorted_descending_stable:
  assumes "m \<noteq> []"
  shows "(stringDates (map snd m) \<longrightarrow> (\<exists>ys. sortReleases (map snd m) = Inr ys))
   \<and> (\<forall>ys. sortReleases (map snd m) = Inr ys \<longrightarrow>
          afterPaging artistId m s
            = (Returned ys,
               (reset s)\<lparr>discographyReleaseCache := (discographyReleaseCache s)(artistId \<mapsto> ys),
                         currentReleases := ys\<rparr>)
          \<and> mset ys = mset (map snd m)
          \<and> sorted_wrt dateNotBefore ys
          \<and> (\<forall>d. filter (\<lambda>r. release_date r = d) ys
                  = filter (\<lambda>r. release_date r = d) (map snd m))
          \<and> (\<forall>i j. i < j \<and> j < length ys \<and> releaseDateString (ys ! i) = []
                 \<longrightarrow> releaseDateString (ys ! j) = []))"
proof (intro conjI impI allI)
  assume "stringDates (map snd m)"
  then show "\<exists>ys. sortReleases (map snd m) = Inr ys"
    using sortInto_total [of "[]" "map snd m"] by (simp add: sortReleases_def)
next
  fix ys
  assume ys: "sortReleases (map snd m) = Inr ys"
  then have s: "mset ys = mset (map snd m)" "sorted_wrt dateNotBefore ys"
     "\<forall>d. filter (\<lambda>r. releaseDateString r = d) ys
            = filter (\<lambda>r. releaseDateString r = d) (map snd m)"
    using sortInto_sorted [of "[]" "map snd m" ys] by (simp_all add: sortReleases_def)
  show "afterPaging artistId m s
            = (Returned ys,
               (reset s)\<lparr>discographyReleaseCache := (discographyReleaseCache s)(artistId \<mapsto> ys),
                         currentReleases := ys\<rparr>)"
    by (rule afterPaging_sorted [OF assms ys])
  show "mset ys = mset (map snd m)"
    by (rule s(1))
  show "sorted_wrt dateNotBefore ys"
    by (rule s(2))
  show "filter (\<lambda>r. release_date r = d) ys = filter (\<lambda>r. release_date r = d) (map snd m)"
    for d
    by (rule stable_by_value [OF s(3)])
  show "releaseDateString (ys ! j) = []"
    if "i < j \<and> j < length ys \<and> releaseDateString (ys ! i) = []" for i j
    using sorted_empty_last [OF s(2), of i j] that by simp
qed

theorem successful_run_sorted_descending_stable_witness:
  "fourReleases \<noteq> [] \<and> stringDates (map snd fourReleases)
   \<and> map release_date (map snd fourReleases)
       = [JStr ''2020-01-01'', JStr [], JStr ''2022-06-15'', JStr []]
   \<and> sortReleases (map snd fourReleases)
       = Inr [releaseOf ''r2'' ''New'' (JStr ''2022-06-15''),
              releaseOf ''r1'' ''Old'' (JStr ''2020-01-01''),
              releaseOf ''r3'' ''Undated'' (JStr []),
              releaseOf ''r4'' ''Also undated'' (JStr [])]
   \<and> fst (afterPaging ''A'' fourReleases waitingA)
       = Returned [releaseOf ''r2'' ''New'' (JStr ''2022-06-15''),
                   releaseOf ''r1'' ''Old'' (JStr ''2020-01-01''),
                   releaseOf ''r3'' ''Undated'' (JStr []),
                   releaseOf ''r4'' ''Also undated'' (JStr [])]
   \<and> sorted_wrt dateNotBefore
         [releaseOf ''r2'' ''New'' (JStr ''2022-06-15''),
          releaseOf ''r1'' ''Old'' (JStr ''2020-01-01''),
          releaseOf ''r3'' ''Undated'' (JStr []),
          releaseOf ''r4'' ''Also undated'' (JStr [])]
   \<and> sortReleases (map snd threeReleases)
       = Inr [releaseOf ''r2'' ''New'' (JStr ''2022-06-15''),
              releaseOf ''r1'' ''Old'' (JStr ''2020-01-01''),
              releaseOf ''r3'' ''Undated'' (JStr [])]"
proof -
  let ?ys = "[releaseOf ''r2'' ''New'' (JStr ''2022-06-15''),
              releaseOf ''r1'' ''Old'' (JStr ''2020-01-01''),
              releaseOf ''r3'' ''Undated'' (JStr []),
              releaseOf ''r4'' ''Also undated'' (JStr [])]"
  have ne: "fourReleases \<noteq> []"
    by (simp add: fourReleases_def)
  have sd: "stringDates (map snd fourReleases)"
    by (simp add: stringDates_def fourReleases_def releaseOf_def)
  have dates: "map release_date (map snd fourReleases)
       = [JStr ''2020-01-01'', JStr [], JStr ''2022-06-15'', JStr []]"
    by (simp add: fourReleases_def releaseOf_def)
  have srt: "sortReleases (map snd fourReleases) = Inr ?ys"
    by code_simp
  have three: "sortReleases (map snd threeReleases)
       = Inr [releaseOf ''r2'' ''New'' (JStr ''2022-06-15''),
              releaseOf ''r1'' ''Old'' (JStr ''2020-01-01''),
              releaseOf ''r3'' ''Undated'' (JStr [])]"
    by code_simp
  from successful_run_sorted_descending_stable [OF ne, of "''A''" waitingA] srt
  have "afterPaging ''A'' fourReleases waitingA
          = (Returned ?ys,
             (reset waitingA)\<lparr>discographyReleaseCache :=
                 (discographyReleaseCache waitingA)(''A'' \<mapsto> ?ys),
               currentReleases := ?ys\<rparr>)"
    and "sorted_wrt dateNotBefore ?ys"
    by blast+
  with ne sd dates srt three show ?thesis by simp
qed

subsection \<open>The detail cache\<close>

text \<open>
  C9: in every state the module can reach, a call of \<^verbatim>\<open>hydrateAlbumDetails\<close> for an id
  that has an entry in the detail cache returns at once the release record built from the
  cached detail: the call is not suspended, so it neither waits nor issues a request, and
  it leaves the module state as it was.
\<close>

theorem cached_detail_returned_at_once:
  assumes "reachable s ps" and "albumCache s albumId = Some cached"
  shows "hydrateAlbumDetails albumId s
           = (Returned (Inr (Some (cachedRelease albumId cached))), s)"
proof -
  have "truthy cached"
    using reachable_moduleInvariant [OF assms(1)] assms(2)
    by (auto simp: moduleInvariant_def)
  then have "cached \<noteq> JUndefined" and "cached \<noteq> JNull"
    by auto
  then show ?thesis
    using assms(2) by (simp add: hydrateAlbumDetails_def)
qed

theorem cached_detail_returned_at_once_witness:
  "reachable hydratedState []
   \<and> albumCache hydratedState ''a1'' = Some albumDetail
   \<and> hydrateAlbumDetails ''a1'' hydratedState
       = (Returned (Inr (Some (cachedRelease ''a1'' albumDetail))), hydratedState)
   \<and> cachedRelease ''a1'' albumDetail
       = \<lparr> id_field = JStr ''a1'', name = JStr ''First'', release_date = JStr ''2020-01-01'',
           album_type = JStr ''album'', uri = JStr ''spotify:album:a1'',
           imageUrl = JStr ''https://img/1'' \<rparr>"
proof -
  have c: "albumCache hydratedState ''a1'' = Some albumDetail"
    by (simp add: hydratedState_def)
  have p: "cachedRelease ''a1'' albumDetail
       = \<lparr> id_field = JStr ''a1'', name = JStr ''First'', release_date = JStr ''2020-01-01'',
           album_type = JStr ''album'', uri = JStr ''spotify:album:a1'',
           imageUrl = JStr ''https://img/1'' \<rparr>"
    by (simp add: cachedRelease_def albumDetail_def jsOr_def)
  from cached_detail_returned_at_once [OF reachable_hydratedState c] reachable_hydratedState c p
  show ?thesis by simp
qed

subsection \<open>The state after a call\<close>

text \<open>
  C10: a call of \<^verbatim>\<open>fetchDiscographyForArtist\<close> that starts in a reachable state in which
  no other such call is suspended, and that runs without interleaving, resolves after at
  most five suspensions, whatever the host answers, and then the phase is \<^verbatim>\<open>IDLE\<close> and
  there is no active artist. So neither \<^verbatim>\<open>DONE\<close> nor \<^verbatim>\<open>ABORTED\<close> is the phase a caller
  finds after the call.
\<close>

theorem call_resolves_idle:
  assumes "reachable s ps" and "noPipelinePending ps"
  shows "\<exists>rs s'. runDiscography available host artistId s = Some (rs, s')
           \<and> phase s' = IDLE \<and> activeArtistId s' = None"
proof -
  from reachable_moduleInvariant [OF assms(1)] assms(2)
  have a: "activeArtistId s = None" and p: "phase s = IDLE"
    by (simp_all add: moduleInvariant_def)
  from fetchDiscographyForArtist_cases [OF a, of available artistId]
  show ?thesis
  proof (elim disjE exE conjE)
    fix rs
    assume "fetchDiscographyForArtist available artistId s = (Returned rs, s)"
    then show ?thesis
      using a p by (simp add: runDiscography_def)
  next
    fix rs s'
    assume "fetchDiscographyForArtist available artistId s = (Returned rs, s')" "settled s'"
    then show ?thesis
      by (simp add: runDiscography_def settled_def)
  next
    assume "fetchDiscographyForArtist available artistId s
              = (Suspended (AwaitGet (artistViewUrl artistId)) (KArtistView artistId),
                 (reset s)\<lparr>phase := ARTISTVIEW\<rparr>)"
    then show ?thesis
      using drive_settles [of "KArtistView artistId" 5 available host
              "AwaitGet (artistViewUrl artistId)" "(reset s)\<lparr>phase := ARTISTVIEW\<rparr>"]
      by (simp add: runDiscography_def settled_def)
  qed
qed

theorem call_resolves_idle_witness:
  "reachable doneA [] \<and> noPipelinePending []
   \<and> (\<exists>rs s'. runDiscography True hostExample ''B'' doneA = Some (rs, s')
         \<and> phase s' = IDLE \<and> activeArtistId s' = None)
   \<and> map_option (phase \<circ> snd) (runDiscography True hostExample ''B'' doneA) = Some IDLE"
proof -
  have n: "noPipelinePending []"
    by (simp add: noPipelinePending_def)
  have e: "map_option (phase \<circ> snd) (runDiscography True hostExample ''B'' doneA) = Some IDLE"
    by code_simp
  from call_resolves_idle [OF reachable_doneA n, of True hostExample "''B''"] reachable_doneA n e
  show ?thesis by blast
qed

end
